theory Spec2Isabelle
  imports Complex_Main "HOL-Library.AList"
begin

section \<open>Strings and dictionaries\<close>

text \<open>
  A Python \<open>str\<close> is a sequence of Unicode code points, and \<open>len\<close> counts code points
  (the query normaliser strips Hangul particles by length). A string is therefore a
  list of code points; \<open>py\<close> turns an ASCII literal into one.

  A Python \<open>dict\<close> keeps insertion order: assigning to a present key replaces the value
  in place, assigning to an absent key appends. That is \<open>AList.update\<close> on an
  association list, with \<open>map_of\<close> as lookup.
\<close>

type_synonym pystr = "nat list"

definition py :: "string \<Rightarrow> pystr" where
  "py s = map of_char s"

type_synonym ('k, 'v) dict = "('k \<times> 'v) list"

section \<open>The skill registry (skill\_activator.py)\<close>

subsection \<open>Data model\<close>

text \<open>The dataclass \<open>SkillMetadata\<close>; \<open>path\<close> is the path's text.\<close>

record SkillMetadata =
  name :: pystr
  path :: pystr
  source :: pystr
  priority :: pystr
  enforcement :: pystr
  description :: pystr
  keywords_korean :: "pystr list"
  keywords_english :: "pystr list"
  tags :: "pystr list"
  use_cases :: "pystr list"
  intent_patterns :: "pystr list"
  auto_activate :: bool
  confidence_threshold :: real

text \<open>
  The parsed metadata block of a SKILL.md and the parsed entries of an INDEX.yaml are
  what the YAML library returns; the library is outside the repository, so the parsed
  mappings are the inputs here. Values are taken to have the types of the documented
  schema; \<open>None\<close> is an absent key (for \<open>fm_tags\<close>, \<open>fm_use_cases\<close> and the two
  keyword lists of a document also a value that is not a list, which the loader
  replaces by the empty list).
\<close>

datatype keywords_value =
    KwDict "pystr list option" "pystr list option"  \<comment> \<open>a mapping: its \<open>korean\<close> and \<open>english\<close> entries\<close>
  | KwList "pystr list"                             \<comment> \<open>a flat list\<close>
  | KwOther                                         \<comment> \<open>any other value\<close>

record frontmatter =
  fm_name :: "pystr option"
  fm_priority :: "pystr option"
  fm_enforcement :: "pystr option"
  fm_description :: "pystr option"
  fm_keywords :: "keywords_value option"
  fm_tags :: "pystr list option"
  fm_use_cases :: "pystr list option"
  fm_auto_activate :: "bool option"
  fm_confidence_threshold :: "real option"

record index_entry =
  ie_priority :: "pystr option"
  ie_enforcement :: "pystr option"
  ie_description :: "pystr option"
  ie_keywords :: "keywords_value option"
  ie_tags :: "pystr list option"
  ie_use_cases :: "pystr list option"
  ie_intent_patterns :: "pystr list option"
  ie_auto_activate :: "bool option"
  ie_confidence_threshold :: "real option"

text \<open>
  What the loader sees of a skills directory: its immediate items in \<open>iterdir\<close> order,
  and the INDEX.yaml directly inside it.
\<close>

datatype skill_md =
    NoSkillMd                      \<comment> \<open>the subdirectory has no SKILL.md\<close>
  | Unreadable                     \<comment> \<open>\<open>read_text\<close> raises\<close>
  | Document "frontmatter option"  \<comment> \<open>\<open>None\<close>: no metadata block, or an unparsable or empty one\<close>

datatype dir_item =
    PlainFile pystr
  | SubDir pystr skill_md

datatype index_file =
    NoIndex                                        \<comment> \<open>INDEX.yaml does not exist\<close>
  | BadIndex                                       \<comment> \<open>unreadable, unparsable, empty or without \<open>skills\<close>\<close>
  | Index "(pystr, index_entry option) dict"       \<comment> \<open>the \<open>skills\<close> mapping; \<open>None\<close>: an entry that is not a mapping\<close>

record skills_dir =
  sd_path :: pystr
  sd_is_dir :: bool
  sd_items :: "dir_item list"
  sd_index :: index_file

fun item_name :: "dir_item \<Rightarrow> pystr" where
  "item_name (PlainFile n) = n"
| "item_name (SubDir n md) = n"

definition joinpath :: "pystr \<Rightarrow> pystr \<Rightarrow> pystr" where
  "joinpath d n = d @ py ''/'' @ n"

definition dflt :: "'a \<Rightarrow> 'a option \<Rightarrow> 'a" where
  "dflt d v = (case v of None \<Rightarrow> d | Some x \<Rightarrow> x)"

subsection \<open>Loading one document and one artifact\<close>

definition load_skill_from_directory ::
  "pystr \<Rightarrow> pystr \<Rightarrow> skill_md \<Rightarrow> pystr \<Rightarrow> SkillMetadata option" where
  "load_skill_from_directory skill_dir dir_name md src =
    (case md of
       NoSkillMd \<Rightarrow> None
     | Unreadable \<Rightarrow> None
     | Document None \<Rightarrow>
         Some \<lparr> name = dir_name, path = skill_dir, source = src,
                priority = py ''medium'', enforcement = py ''suggested'',
                description = py ''Skill from '' @ dir_name,
                keywords_korean = [], keywords_english = [], tags = [], use_cases = [],
                intent_patterns = [], auto_activate = True, confidence_threshold = 0.5 \<rparr>
     | Document (Some fm) \<Rightarrow>
         (let (kk, ke) =
                (case dflt (KwDict None None) (fm_keywords fm) of
                   KwDict ko en \<Rightarrow> (dflt [] ko, dflt [] en)
                 | KwList ks \<Rightarrow> ([], ks)
                 | KwOther \<Rightarrow> ([], []))
          in Some \<lparr> name = dflt dir_name (fm_name fm), path = skill_dir, source = src,
                priority = dflt (py ''medium'') (fm_priority fm),
                enforcement = dflt (py ''suggested'') (fm_enforcement fm),
                description = dflt [] (fm_description fm),
                keywords_korean = kk, keywords_english = ke,
                tags = dflt [] (fm_tags fm),
                use_cases = dflt [] (fm_use_cases fm),
                intent_patterns = [],
                auto_activate = dflt True (fm_auto_activate fm),
                confidence_threshold = dflt 0.5 (fm_confidence_threshold fm) \<rparr>))"

definition index_record :: "skills_dir \<Rightarrow> pystr \<Rightarrow> pystr \<Rightarrow> index_entry \<Rightarrow> SkillMetadata" where
  "index_record d src skill_name skill_data =
    (let skill_path = joinpath (sd_path d) skill_name;
         (kk, ke) =
           (case dflt (KwDict None None) (ie_keywords skill_data) of
              KwDict ko en \<Rightarrow> (dflt [] ko, dflt [] en)
            | KwList ks \<Rightarrow> ([], [])
            | KwOther \<Rightarrow> ([], []))
     in \<lparr> name = skill_name,
          path = (if skill_name \<in> set (map item_name (sd_items d)) then skill_path else sd_path d),
          source = src,
          priority = dflt (py ''medium'') (ie_priority skill_data),
          enforcement = dflt (py ''suggested'') (ie_enforcement skill_data),
          description = dflt [] (ie_description skill_data),
          keywords_korean = kk, keywords_english = ke,
          tags = dflt [] (ie_tags skill_data),
          use_cases = dflt [] (ie_use_cases skill_data),
          intent_patterns = dflt [] (ie_intent_patterns skill_data),
          auto_activate = dflt True (ie_auto_activate skill_data),
          confidence_threshold = dflt 0.5 (ie_confidence_threshold skill_data) \<rparr>)"

fun index_records ::
  "skills_dir \<Rightarrow> pystr \<Rightarrow> (pystr, index_entry option) dict \<Rightarrow> (pystr, SkillMetadata) dict" where
  "index_records d src [] = []"
| "index_records d src ((skill_name, None) # es) = index_records d src es"
| "index_records d src ((skill_name, Some skill_data) # es) =
     (skill_name, index_record d src skill_name skill_data) # index_records d src es"

definition load_index_yaml :: "skills_dir \<Rightarrow> pystr \<Rightarrow> (pystr, SkillMetadata) dict" where
  "load_index_yaml d src =
    (case sd_index d of
       NoIndex \<Rightarrow> []
     | BadIndex \<Rightarrow> []
     | Index es \<Rightarrow> index_records d src es)"

subsection \<open>Merging the tiers\<close>

text \<open>
  The body of the branch \<open>if skill_name in self.skills\<close>: the artifact record
  \<open>indexed_skill\<close> is merged into the record \<open>existing\<close> (mutated in place by the
  source; here the updated record is returned and stored back).
\<close>

definition merge_index_entry :: "SkillMetadata \<Rightarrow> SkillMetadata \<Rightarrow> SkillMetadata" where
  "merge_index_entry existing indexed_skill =
    (let e1 = (if keywords_korean existing = [] \<and> keywords_korean indexed_skill \<noteq> []
               then existing\<lparr>keywords_korean := keywords_korean indexed_skill\<rparr> else existing);
         e2 = (if keywords_english e1 = [] \<and> keywords_english indexed_skill \<noteq> []
               then e1\<lparr>keywords_english := keywords_english indexed_skill\<rparr> else e1);
         e3 = (if tags e2 = [] \<and> tags indexed_skill \<noteq> []
               then e2\<lparr>tags := tags indexed_skill\<rparr> else e2);
         e4 = (if use_cases e3 = [] \<and> use_cases indexed_skill \<noteq> []
               then e3\<lparr>use_cases := use_cases indexed_skill\<rparr> else e3);
         e5 = (if priority indexed_skill \<noteq> py ''medium''
               then e4\<lparr>priority := priority indexed_skill\<rparr> else e4);
         e6 = (if confidence_threshold indexed_skill \<noteq> 0.5
               then e5\<lparr>confidence_threshold := confidence_threshold indexed_skill\<rparr> else e5);
         e7 = (if \<not> auto_activate indexed_skill
               then e6\<lparr>auto_activate := False\<rparr> else e6)
     in e7)"

definition merge_indexed ::
  "(pystr, SkillMetadata) dict \<Rightarrow> pystr \<times> SkillMetadata \<Rightarrow> (pystr, SkillMetadata) dict" where
  "merge_indexed skills e =
    (case e of (skill_name, indexed_skill) \<Rightarrow>
       (case map_of skills skill_name of
          Some existing \<Rightarrow> AList.update skill_name (merge_index_entry existing indexed_skill) skills
        | None \<Rightarrow> AList.update skill_name indexed_skill skills))"

definition scan_item ::
  "skills_dir \<Rightarrow> pystr \<Rightarrow> (pystr, SkillMetadata) dict \<Rightarrow> dir_item \<Rightarrow> (pystr, SkillMetadata) dict" where
  "scan_item d src skills item =
    (case item of
       PlainFile n \<Rightarrow> skills
     | SubDir n md \<Rightarrow>
         (case load_skill_from_directory (joinpath (sd_path d) n) n md src of
            None \<Rightarrow> skills
          | Some skill \<Rightarrow> AList.update (name skill) skill skills))"

definition load_tier ::
  "(pystr, SkillMetadata) dict \<Rightarrow> skills_dir \<times> pystr \<Rightarrow> (pystr, SkillMetadata) dict" where
  "load_tier skills t =
    (case t of (skill_path, src) \<Rightarrow>
       (let scanned = (if sd_is_dir skill_path
                       then foldl (scan_item skill_path src) skills (sd_items skill_path)
                       else skills)
        in if sd_index skill_path \<noteq> NoIndex
           then foldl merge_indexed scanned (load_index_yaml skill_path src)
           else scanned))"

text \<open>
  \<open>skill_paths\<close> is ordered by priority, highest first (project, user, system,
  custom); the loop runs over \<open>reversed(self.skill_paths)\<close>, from the empty registry.
\<close>

definition load_all_skills :: "(skills_dir \<times> pystr) list \<Rightarrow> (pystr, SkillMetadata) dict" where
  "load_all_skills skill_paths = foldl load_tier [] (rev skill_paths)"

subsection \<open>Discovery order\<close>

text \<open>
  \<open>_discover_skill_paths\<close>: the candidate directories are given as what the file
  system holds at each candidate path (\<open>None\<close>: the path does not exist). The custom
  paths are the non-empty, stripped parts of \<open>CLAUDE_SKILLS_PATH\<close>, in order.
\<close>

definition candidate :: "skills_dir option \<Rightarrow> pystr \<Rightarrow> (skills_dir \<times> pystr) list" where
  "candidate p src =
    (case p of None \<Rightarrow> [] | Some d \<Rightarrow> if sd_is_dir d then [(d, src)] else [])"

definition discover_skill_paths ::
  "skills_dir option \<Rightarrow> skills_dir option \<Rightarrow> bool \<Rightarrow> skills_dir option \<Rightarrow> bool \<Rightarrow>
   skills_dir option \<Rightarrow> skills_dir option list \<Rightarrow> (skills_dir \<times> pystr) list" where
  "discover_skill_paths project_claude_skills project_skills skip_user user_path skip_system
      system_path custom_paths =
    candidate project_claude_skills (py ''project'') @ candidate project_skills (py ''project'')
    @ (if \<not> skip_user then candidate user_path (py ''user'') else [])
    @ (if \<not> skip_system then candidate system_path (py ''system'') else [])
    @ concat (map (\<lambda>p. candidate p (py ''custom'')) custom_paths)"

subsection \<open>Scenario A\<close>

text \<open>
  A project-tier skills directory with the skill directory \<open>debug-helper\<close>, whose
  SKILL.md declares the flat keyword list \<open>[debug, error]\<close> and no tags, and a user-tier
  skills directory holding only an INDEX.yaml with an entry \<open>debug-helper\<close> that
  carries \<open>tags = [diagnostics]\<close>.
\<close>

definition scenario_A_frontmatter :: frontmatter where
  "scenario_A_frontmatter =
    \<lparr> fm_name = Some (py ''debug-helper''), fm_priority = None, fm_enforcement = None,
      fm_description = None, fm_keywords = Some (KwList [py ''debug'', py ''error'']),
      fm_tags = Some [], fm_use_cases = None, fm_auto_activate = None,
      fm_confidence_threshold = None \<rparr>"

definition scenario_A_project :: skills_dir where
  "scenario_A_project =
    \<lparr> sd_path = py ''proj/.claude/skills'', sd_is_dir = True,
      sd_items = [SubDir (py ''debug-helper'') (Document (Some scenario_A_frontmatter))],
      sd_index = NoIndex \<rparr>"

definition scenario_A_entry :: index_entry where
  "scenario_A_entry =
    \<lparr> ie_priority = None, ie_enforcement = None, ie_description = None, ie_keywords = None,
      ie_tags = Some [py ''diagnostics''], ie_use_cases = None, ie_intent_patterns = None,
      ie_auto_activate = None, ie_confidence_threshold = None \<rparr>"

definition scenario_A_user :: skills_dir where
  "scenario_A_user =
    \<lparr> sd_path = py ''home/.claude/skills'', sd_is_dir = True,
      sd_items = [PlainFile (py ''INDEX.yaml'')],
      sd_index = Index [(py ''debug-helper'', Some scenario_A_entry)] \<rparr>"

definition scenario_A_paths :: "(skills_dir \<times> pystr) list" where
  "scenario_A_paths =
    discover_skill_paths (Some scenario_A_project) None False (Some scenario_A_user) False None []"

definition scenario_A_document_record :: SkillMetadata where
  "scenario_A_document_record =
    \<lparr> name = py ''debug-helper'', path = py ''proj/.claude/skills/debug-helper'',
      source = py ''project'', priority = py ''medium'', enforcement = py ''suggested'',
      description = [], keywords_korean = [], keywords_english = [py ''debug'', py ''error''],
      tags = [], use_cases = [], intent_patterns = [], auto_activate = True,
      confidence_threshold = 0.5 \<rparr>"

section \<open>The ranking engine (skill\_activator.py)\<close>

subsection \<open>Library functions\<close>

text \<open>
  The scorer calls Python's \<open>str.lower\<close> and the \<open>re\<close> module. They are not code of the
  repository, so they are parameters of the model, and every theorem holds for each
  value of them:
  \<^item> \<open>str_lower\<close> is \<open>str.lower\<close>;
  \<^item> \<open>is_word_char\<close> and \<open>is_space\<close> are the character classes \<open>\w\<close> and \<open>\s\<close> (the
    latter is also the whitespace \<open>str.split\<close> and \<open>str.strip\<close> use);
  \<^item> \<open>alpha_words s\<close> is \<open>re.findall(r'\b[a-zA-Z]{3,}\b', s)\<close>;
  \<^item> \<open>re_search_ic p s\<close> is \<open>re.search(p, s, re.IGNORECASE)\<close> as a truth value, \<open>None\<close>
    when the pattern raises \<open>re.error\<close>;
  \<^item> \<open>word_boundary_search k s\<close> is \<open>re.search(r'\b' + re.escape(k) + r'\b', s)\<close>, in
    the same way.
\<close>

record pylib =
  str_lower :: "pystr \<Rightarrow> pystr"
  is_word_char :: "nat \<Rightarrow> bool"
  is_space :: "nat \<Rightarrow> bool"
  alpha_words :: "pystr \<Rightarrow> pystr list"
  re_search_ic :: "pystr \<Rightarrow> pystr \<Rightarrow> bool option"
  word_boundary_search :: "pystr \<Rightarrow> pystr \<Rightarrow> bool option"

text \<open>String primitives: \<open>s.startswith(p)\<close>, \<open>s.endswith(p)\<close>, \<open>a in b\<close> and \<open>w[:-n]\<close>.\<close>

definition startswith :: "'a list \<Rightarrow> 'a list \<Rightarrow> bool" where
  "startswith s p = (take (length p) s = p)"

definition endswith :: "'a list \<Rightarrow> 'a list \<Rightarrow> bool" where
  "endswith s p = (length p \<le> length s \<and> drop (length s - length p) s = p)"

fun is_substr :: "'a list \<Rightarrow> 'a list \<Rightarrow> bool" where
  "is_substr a [] = (a = [])"
| "is_substr a (y # ys) = (startswith (y # ys) a \<or> is_substr a ys)"

definition drop_last :: "nat \<Rightarrow> 'a list \<Rightarrow> 'a list" where
  "drop_last n w = (if n = 0 then [] else take (length w - n) w)"

subsection \<open>Configuration\<close>

record keyword_weights =
  exact_match :: real
  compound_match :: real
  partial_match :: real
  tag_match :: real
  use_case_match :: real

record activator_config =
  mode :: pystr
  global_confidence_threshold :: real
  max_suggestions :: int
  priority_multipliers :: "(pystr, real) dict"
  keyword_weights :: keyword_weights

definition DEFAULT_CONFIG :: activator_config where
  "DEFAULT_CONFIG =
    \<lparr> mode = py ''suggest'', global_confidence_threshold = 0.5, max_suggestions = 3,
      priority_multipliers = [(py ''high'', 1.5), (py ''medium'', 1.0), (py ''low'', 0.7)],
      keyword_weights =
        \<lparr> exact_match = 3.0, compound_match = 2.5, partial_match = 1.5, tag_match = 2.0,
          use_case_match = 2.5 \<rparr> \<rparr>"

text \<open>
  \<open>STOPWORDS\<close> and \<open>KOREAN_PARTICLES\<close> of the class; the Hangul entries are written as
  code points (the first particle, 44032, is U+AC00).
\<close>

definition STOPWORDS :: "pystr list" where
  "STOPWORDS =
    [[54644, 51480], [51328], [51060, 44144], [51200, 44144], [44536, 44144], [47952],
     [47956, 44032], [50612, 46523, 44172], [50780], [50616, 51228], [50612, 46356],
     [45572, 44396], [47924, 50631], [50612, 46500], [51080, 50612], [50630, 50612],
     [54616, 45716], [46104, 45716], [44057, 51008], [51080, 45716], [50630, 45716],
     [54644, 49436], [54644, 50836], [54633, 45768, 45796], [51060, 45796],
     [51077, 45768, 45796], [49352, 47196, 50868], [54616, 47140, 44256],
     [51080, 45716, 45936], [49910, 50612], [47564, 46308, 50612, 51480], [51676, 51480],
     [45320, 47924], [48373, 51105, 54620], [48373, 51105, 54644, 49436], [52286, 44256],
     [54616, 44256], [49910, 51008], [54596, 50836], py ''the'', py ''a'', py ''an'',
     py ''is'', py ''are'', py ''was'', py ''were'', py ''be'', py ''been'', py ''being'',
     py ''have'', py ''has'', py ''had'', py ''do'', py ''does'', py ''did'', py ''will'',
     py ''would'', py ''should'', py ''could'', py ''can'', py ''may'', py ''might'',
     py ''must'', py ''shall'', py ''this'', py ''that'', py ''these'', py ''those'',
     py ''i'', py ''you'', py ''he'', py ''she'', py ''it'', py ''we'', py ''they'',
     py ''me'', py ''him'', py ''her'', py ''us'', py ''them'', py ''my'', py ''your'',
     py ''his'', py ''its'', py ''our'', py ''their'', py ''what'', py ''which'',
     py ''who'', py ''when'', py ''where'', py ''why'', py ''how'', py ''please'',
     py ''just'', py ''some'', py ''need'', py ''want'', py ''help'', py ''with'',
     py ''for'', py ''about'', py ''like'', py ''make'', py ''create'', py ''new'',
     py ''to'', py ''of'', py ''in'', py ''on'', py ''at'', py ''by'', py ''from'',
     py ''or'', py ''and'', py ''as'', py ''so'', py ''if'', py ''then'', py ''than'',
     py ''but'', py ''also'', py ''only'', py ''not'', py ''no'', py ''yes'', py ''all'',
     py ''any'', py ''each'', py ''every'', py ''both'', py ''few'', py ''more'',
     py ''most'', py ''other'', py ''such'']"

definition KOREAN_PARTICLES :: "pystr list" where
  "KOREAN_PARTICLES =
    [[44032], [51060], [51008], [45716], [51012], [47484], [50640], [50640, 49436],
     [50640, 44172], [44760, 49436], [51004, 47196], [47196], [51032], [46020], [47564],
     [48512, 53552], [44620, 51648], [50752], [44284]]"

subsection \<open>Query normalisation\<close>

definition is_hangul :: "nat \<Rightarrow> bool" where
  "is_hangul c = ((12593 \<le> c \<and> c \<le> 12622) \<or> (12623 \<le> c \<and> c \<le> 12643)
                  \<or> (44032 \<le> c \<and> c \<le> 55203))"

definition normalize :: "pylib \<Rightarrow> pystr \<Rightarrow> pystr" where
  "normalize L text =
    map (\<lambda>c. if is_word_char L c \<or> is_space L c \<or> is_hangul c then c else 32) (str_lower L text)"

text \<open>\<open>str.split()\<close>: the maximal runs of characters that are not whitespace.\<close>

fun split_acc :: "(nat \<Rightarrow> bool) \<Rightarrow> pystr \<Rightarrow> pystr \<Rightarrow> pystr list" where
  "split_acc sp cur [] = (if cur = [] then [] else [cur])"
| "split_acc sp cur (c # cs) =
     (if sp c then (if cur = [] then split_acc sp [] cs else cur # split_acc sp [] cs)
      else split_acc sp (cur @ [c]) cs)"

definition split :: "pylib \<Rightarrow> pystr \<Rightarrow> pystr list" where
  "split L s = split_acc (is_space L) [] s"

definition strip :: "pylib \<Rightarrow> pystr \<Rightarrow> pystr" where
  "strip L s = rev (dropWhile (is_space L) (rev (dropWhile (is_space L) s)))"

text \<open>
  The loop over the particles, with its \<open>break\<close>: the first particle the word ends with
  and that passes the length test is cut off.
\<close>

fun strip_particle :: "pystr list \<Rightarrow> pystr \<Rightarrow> pystr" where
  "strip_particle [] w = w"
| "strip_particle (particle # ps) w =
     (if endswith w particle \<and> length w > length particle + 1
      then drop_last (length particle) w
      else strip_particle ps w)"

fun extract_words :: "pylib \<Rightarrow> pystr list \<Rightarrow> pystr list" where
  "extract_words L [] = []"
| "extract_words L (w0 # ws) =
     (let w = strip L w0 in
      if length w < 2 then extract_words L ws
      else (let word_clean = strip_particle KOREAN_PARTICLES w in
            if word_clean \<noteq> [] \<and> word_clean \<notin> set STOPWORDS
            then word_clean # extract_words L ws
            else extract_words L ws))"

definition extract_keywords :: "pylib \<Rightarrow> pystr \<Rightarrow> pystr list" where
  "extract_keywords L text = extract_words L (split L (normalize L text))"

subsection \<open>Scoring one skill\<close>

fun check_intent_patterns :: "pylib \<Rightarrow> pystr list \<Rightarrow> pystr \<Rightarrow> bool" where
  "check_intent_patterns L [] text = False"
| "check_intent_patterns L (pattern # ps) text =
     (case re_search_ic L pattern text of
        Some True \<Rightarrow> True
      | Some False \<Rightarrow> check_intent_patterns L ps text
      | None \<Rightarrow> check_intent_patterns L ps text)"

definition check_word_boundary :: "pylib \<Rightarrow> pystr \<Rightarrow> pystr \<Rightarrow> bool" where
  "check_word_boundary L keyword text =
    (case word_boundary_search L (str_lower L keyword) (str_lower L text) of
       Some found \<Rightarrow> found
     | None \<Rightarrow> is_substr (str_lower L keyword) (str_lower L text))"

text \<open>The local set \<open>stopwords\<close> of \<open>_calculate_match_score\<close>.\<close>

definition score_stopwords :: "pystr list" where
  "score_stopwords =
    [py ''the'', py ''and'', py ''for'', py ''this'', py ''that'', py ''with'',
     py ''from'', py ''use'', py ''when'', py ''should'', py ''will'', py ''can'',
     py ''are'', py ''was'', py ''were'', py ''been'', py ''have'', py ''has'', py ''had'',
     py ''not'', py ''but'', py ''what'', py ''all'', py ''your'', py ''you'', py ''they'',
     py ''them'', py ''their'', py ''which'', py ''who'', py ''whom'', py ''how'',
     py ''any'', py ''some'', py ''such'', py ''more'', py ''most'', py ''other'',
     py ''into'', py ''over'', py ''only'', py ''than'', py ''then'', py ''also'',
     py ''just'', py ''about'', py ''using'', py ''before'', py ''after'', py ''during'',
     py ''like'', py ''need'', py ''needs'']"

text \<open>
  The sets \<open>use_case_keywords\<close> and \<open>desc_keywords\<close>, as duplicate-free lists: the code
  only tests membership in them and iterates over them once per element.
\<close>

definition use_case_keywords :: "pylib \<Rightarrow> SkillMetadata \<Rightarrow> pystr list" where
  "use_case_keywords L skill =
    remdups (filter (\<lambda>w. w \<notin> set score_stopwords)
      (concat (map (\<lambda>uc. alpha_words L (str_lower L uc)) (use_cases skill))))"

definition desc_keywords :: "pylib \<Rightarrow> SkillMetadata \<Rightarrow> pystr list" where
  "desc_keywords L skill =
    (if description skill \<noteq> []
     then remdups (filter (\<lambda>w. w \<notin> set score_stopwords)
            (alpha_words L (str_lower L (description skill))))
     else [])"

definition flat_keywords :: "pylib \<Rightarrow> SkillMetadata \<Rightarrow> pystr list" where
  "flat_keywords L skill = map (str_lower L) (keywords_korean skill @ keywords_english skill)"

text \<open>The list \<open>skill_keywords\<close> the two matching passes use.\<close>

definition skill_keywords :: "pylib \<Rightarrow> SkillMetadata \<Rightarrow> pystr list" where
  "skill_keywords L skill =
    (if flat_keywords L skill = [] \<and> desc_keywords L skill \<noteq> []
     then desc_keywords L skill else flat_keywords L skill)"

definition intent_score :: "pylib \<Rightarrow> keyword_weights \<Rightarrow> SkillMetadata \<Rightarrow> pystr \<Rightarrow> real" where
  "intent_score L weights skill original_message =
    (if intent_patterns skill \<noteq> [] \<and> original_message \<noteq> []
        \<and> check_intent_patterns L (intent_patterns skill) original_message
     then exact_match weights * 2 else 0)"

definition primary_step :: "pylib \<Rightarrow> keyword_weights \<Rightarrow> pystr \<Rightarrow> real \<Rightarrow> pystr \<Rightarrow> real" where
  "primary_step L weights message_lower score pk =
    (if check_word_boundary L pk message_lower then score + exact_match weights * 2.0 else score)"

definition primary_pass ::
  "pylib \<Rightarrow> keyword_weights \<Rightarrow> SkillMetadata \<Rightarrow> pystr \<Rightarrow> real \<Rightarrow> real" where
  "primary_pass L weights skill original_message score =
    (if original_message \<noteq> [] \<and> flat_keywords L skill \<noteq> []
     then foldl (primary_step L weights (str_lower L original_message)) score
            (take 3 (flat_keywords L skill))
     else score)"

text \<open>
  The compound pass. The state is the pair of \<open>matched_user_keywords\<close> and \<open>score\<close>;
  \<open>matching_parts\<close> is a list, one element for each position of \<open>user_keywords\<close> that
  passes the test.
\<close>

definition matching_parts :: "pystr list \<Rightarrow> pystr \<Rightarrow> pystr list" where
  "matching_parts user_keywords skill_kw =
    filter (\<lambda>uk. is_substr uk skill_kw \<and> length uk \<ge> 2) user_keywords"

definition compound_step ::
  "keyword_weights \<Rightarrow> pystr list \<Rightarrow> pystr set \<times> real \<Rightarrow> pystr \<Rightarrow> pystr set \<times> real" where
  "compound_step weights user_keywords st skill_kw =
    (case st of (matched_user_keywords, score) \<Rightarrow>
       (if length (matching_parts user_keywords skill_kw) \<ge> 2
        then (matched_user_keywords \<union> set (matching_parts user_keywords skill_kw),
              score + real (length (matching_parts user_keywords skill_kw)) * compound_match weights)
        else (matched_user_keywords, score)))"

definition compound_pass ::
  "keyword_weights \<Rightarrow> pystr list \<Rightarrow> pystr list \<Rightarrow> pystr set \<times> real \<Rightarrow> pystr set \<times> real" where
  "compound_pass weights user_keywords skill_kws st =
    foldl (compound_step weights user_keywords) st skill_kws"

text \<open>The fourth rule of the per-keyword pass: the fuzzy match against one skill keyword.\<close>

definition fuzzy_match :: "pystr \<Rightarrow> pystr \<Rightarrow> bool" where
  "fuzzy_match user_kw sk =
    (((is_substr user_kw sk \<or> is_substr sk user_kw)
        \<and> min (length user_kw) (length sk) \<ge> 4
        \<and> \<bar>int (length user_kw) - int (length sk)\<bar> \<le> 3)
     \<or> (length user_kw \<ge> 5 \<and> length sk \<ge> 5
        \<and> (startswith sk (take 5 user_kw) \<or> startswith user_kw (take 5 sk))))"

definition individual_step ::
  "keyword_weights \<Rightarrow> pystr list \<Rightarrow> pystr list \<Rightarrow> pystr list \<Rightarrow> pystr list \<Rightarrow>
   pystr set \<times> real \<Rightarrow> pystr \<Rightarrow> pystr set \<times> real" where
  "individual_step weights skill_kws uc_kws desc_kws skill_tags st user_kw =
    (case st of (matched_user_keywords, score) \<Rightarrow>
       (if user_kw \<in> matched_user_keywords then (matched_user_keywords, score)
        else if user_kw \<in> set skill_kws
          then (insert user_kw matched_user_keywords, score + exact_match weights)
        else if user_kw \<in> set uc_kws
          then (insert user_kw matched_user_keywords, score + use_case_match weights)
        else if user_kw \<in> set desc_kws
          then (insert user_kw matched_user_keywords, score + partial_match weights)
        else if list_ex (fuzzy_match user_kw) skill_kws
          then (insert user_kw matched_user_keywords, score + partial_match weights)
        else if user_kw \<in> set skill_tags
          then (insert user_kw matched_user_keywords, score + tag_match weights)
        else (matched_user_keywords, score)))"

definition individual_pass ::
  "keyword_weights \<Rightarrow> pystr list \<Rightarrow> pystr list \<Rightarrow> pystr list \<Rightarrow> pystr list \<Rightarrow>
   pystr list \<Rightarrow> pystr set \<times> real \<Rightarrow> pystr set \<times> real" where
  "individual_pass weights skill_kws uc_kws desc_kws skill_tags user_keywords st =
    foldl (individual_step weights skill_kws uc_kws desc_kws skill_tags) st user_keywords"

text \<open>
  The use-case bonus: \<open>overlap\<close> is the intersection of two sets, so its size is the
  number of distinct words of the use case that are query keywords.
\<close>

definition overlap_size :: "pylib \<Rightarrow> pystr list \<Rightarrow> pystr \<Rightarrow> nat" where
  "overlap_size L user_keywords uc =
    length (remdups (filter (\<lambda>w. w \<in> set user_keywords) (alpha_words L uc)))"

definition use_case_step :: "pylib \<Rightarrow> pystr list \<Rightarrow> real \<Rightarrow> pystr \<Rightarrow> real" where
  "use_case_step L user_keywords score uc =
    (if overlap_size L user_keywords uc \<ge> 2
     then score + real (overlap_size L user_keywords uc) * 0.5 else score)"

definition use_case_pass :: "pylib \<Rightarrow> SkillMetadata \<Rightarrow> pystr list \<Rightarrow> real \<Rightarrow> real" where
  "use_case_pass L skill user_keywords score =
    foldl (use_case_step L user_keywords) score (map (str_lower L) (use_cases skill))"

definition stem_match :: "pystr \<Rightarrow> pystr \<Rightarrow> bool" where
  "stem_match user_kw uc_kw =
    (length user_kw \<ge> 4 \<and> length uc_kw \<ge> 4
     \<and> (startswith uc_kw user_kw \<or> startswith user_kw uc_kw))"

definition stemming_inner :: "pystr list \<Rightarrow> real \<Rightarrow> pystr \<Rightarrow> real" where
  "stemming_inner uc_kws score user_kw =
    foldl (\<lambda>s uc_kw. if stem_match user_kw uc_kw then s + 1.0 else s) score uc_kws"

definition stemming_pass :: "pystr list \<Rightarrow> pystr list \<Rightarrow> real \<Rightarrow> real" where
  "stemming_pass uc_kws user_keywords score = foldl (stemming_inner uc_kws) score user_keywords"

text \<open>
  The state of \<open>_calculate_match_score\<close> where it normalises: the consumed query
  keywords and the raw score. The scores are Python floats; the default weights and
  the bonuses are multiples of \<open>0.5\<close>, whose sums floats hold exactly, and they are
  modelled as reals.
\<close>

definition score_state ::
  "pylib \<Rightarrow> keyword_weights \<Rightarrow> pystr list \<Rightarrow> SkillMetadata \<Rightarrow> pystr \<Rightarrow> pystr set \<times> real" where
  "score_state L weights user_keywords skill original_message =
    (let score1 = 0.0 + intent_score L weights skill original_message;
         score2 = primary_pass L weights skill original_message score1;
         skill_tags = map (str_lower L) (tags skill);
         st3 = compound_pass weights user_keywords (skill_keywords L skill) ({}, score2);
         st4 = individual_pass weights (skill_keywords L skill) (use_case_keywords L skill)
                 (desc_keywords L skill) skill_tags user_keywords st3;
         score5 = use_case_pass L skill user_keywords (snd st4);
         score6 = stemming_pass (use_case_keywords L skill) user_keywords score5
     in (fst st4, score6))"

text \<open>
  \<open>consumed\<close> is the final \<open>matched_user_keywords\<close>, \<open>raw_score\<close> the final \<open>score\<close>. On the
  early return for an empty keyword list nothing is consumed and the result is \<open>0.0\<close>.
\<close>

definition consumed ::
  "pylib \<Rightarrow> keyword_weights \<Rightarrow> pystr list \<Rightarrow> SkillMetadata \<Rightarrow> pystr \<Rightarrow> pystr set" where
  "consumed L weights user_keywords skill original_message =
    (if user_keywords = [] then {}
     else fst (score_state L weights user_keywords skill original_message))"

definition raw_score ::
  "pylib \<Rightarrow> keyword_weights \<Rightarrow> pystr list \<Rightarrow> SkillMetadata \<Rightarrow> pystr \<Rightarrow> real" where
  "raw_score L weights user_keywords skill original_message =
    (if user_keywords = [] then 0.0
     else snd (score_state L weights user_keywords skill original_message))"

definition calculate_match_score ::
  "pylib \<Rightarrow> activator_config \<Rightarrow> pystr list \<Rightarrow> SkillMetadata \<Rightarrow> pystr \<Rightarrow> real" where
  "calculate_match_score L config user_keywords skill original_message =
    (if user_keywords = [] then 0.0
     else (let weights = keyword_weights config;
               max_possible_score = real (length user_keywords) * exact_match weights
           in if max_possible_score = 0 then 0.0
              else (let normalized_score =
                          raw_score L weights user_keywords skill original_message
                            / max_possible_score;
                        multiplier = dflt 1.0 (map_of (priority_multipliers config) (priority skill))
                    in normalized_score * multiplier)))"

subsection \<open>Selecting the candidates\<close>

text \<open>
  The threshold of the loop in \<open>detect_skills\<close>: \<open>a or b\<close> on floats is \<open>a\<close> unless \<open>a\<close> is
  zero.
\<close>

definition skill_threshold :: "real option \<Rightarrow> real \<Rightarrow> SkillMetadata \<Rightarrow> real" where
  "skill_threshold override_threshold global_threshold skill =
    (case override_threshold of
       Some t \<Rightarrow> t
     | None \<Rightarrow> (if confidence_threshold skill \<noteq> 0 then confidence_threshold skill
                 else global_threshold))"

fun collect_matches ::
  "pylib \<Rightarrow> activator_config \<Rightarrow> real option \<Rightarrow> pystr list \<Rightarrow> pystr \<Rightarrow>
   SkillMetadata list \<Rightarrow> (SkillMetadata \<times> real) list" where
  "collect_matches L config override_threshold user_keywords user_message [] = []"
| "collect_matches L config override_threshold user_keywords user_message (skill # rest) =
     (if \<not> auto_activate skill
      then collect_matches L config override_threshold user_keywords user_message rest
      else (let score = calculate_match_score L config user_keywords skill user_message;
                threshold = skill_threshold override_threshold
                              (global_confidence_threshold config) skill
            in if score \<ge> threshold
               then (skill, score)
                      # collect_matches L config override_threshold user_keywords user_message rest
               else collect_matches L config override_threshold user_keywords user_message rest))"

text \<open>\<open>xs[:n]\<close> for an integer \<open>n\<close>: a negative \<open>n\<close> counts from the end.\<close>

definition slice_to :: "int \<Rightarrow> 'a list \<Rightarrow> 'a list" where
  "slice_to n xs = (if n \<ge> 0 then take (nat n) xs else take (length xs - nat (- n)) xs)"

text \<open>
  \<open>detect_skills\<close> over the registry's records in dictionary order. The sort is stable
  and descending in the score, which is the stable ascending sort on the negated score.
\<close>

definition detect_skills ::
  "pylib \<Rightarrow> activator_config \<Rightarrow> real option \<Rightarrow> (pystr, SkillMetadata) dict \<Rightarrow> pystr \<Rightarrow>
   (SkillMetadata \<times> real) list" where
  "detect_skills L config override_threshold skills user_message =
    (let user_keywords = extract_keywords L user_message in
     if user_keywords = [] then []
     else (let matches = collect_matches L config override_threshold user_keywords user_message
                           (map snd skills)
           in slice_to (max_suggestions config) (sort_key (\<lambda>m. - snd m) matches)))"

subsection \<open>The library functions on ASCII text\<close>

text \<open>
  For the examples the library parameters are instantiated by what Python computes on
  ASCII text (with Hangul counted as word characters) and on patterns without regular
  expression operators: a literal pattern is found where it occurs as a substring, and
  \<open>\b\<close> holds between a word character and a neighbour that is none.
\<close>

definition ascii_lower :: "pystr \<Rightarrow> pystr" where
  "ascii_lower s = map (\<lambda>c. if 65 \<le> c \<and> c \<le> 90 then c + 32 else c) s"

definition ascii_letter :: "nat \<Rightarrow> bool" where
  "ascii_letter c = ((65 \<le> c \<and> c \<le> 90) \<or> (97 \<le> c \<and> c \<le> 122))"

definition ascii_word_char :: "nat \<Rightarrow> bool" where
  "ascii_word_char c = (ascii_letter c \<or> (48 \<le> c \<and> c \<le> 57) \<or> c = 95 \<or> is_hangul c)"

definition ascii_space :: "nat \<Rightarrow> bool" where
  "ascii_space c = (c = 32 \<or> (9 \<le> c \<and> c \<le> 13))"

definition ascii_alpha_words :: "pystr \<Rightarrow> pystr list" where
  "ascii_alpha_words s =
    filter (\<lambda>w. 3 \<le> length w \<and> list_all ascii_letter w)
      (split_acc (\<lambda>c. \<not> ascii_word_char c) [] s)"

definition boundary_at :: "pystr \<Rightarrow> nat \<Rightarrow> bool" where
  "boundary_at s i =
    ((0 < i \<and> i \<le> length s \<and> ascii_word_char (s ! (i - 1)))
      \<noteq> (i < length s \<and> ascii_word_char (s ! i)))"

definition ascii_word_boundary_search :: "pystr \<Rightarrow> pystr \<Rightarrow> bool option" where
  "ascii_word_boundary_search k s =
    Some (list_ex (\<lambda>i. take (length k) (drop i s) = k \<and> boundary_at s i
                        \<and> boundary_at s (i + length k)) [0..<Suc (length s)])"

definition ascii_lib :: pylib where
  "ascii_lib =
    \<lparr> str_lower = ascii_lower, is_word_char = ascii_word_char, is_space = ascii_space,
      alpha_words = ascii_alpha_words,
      re_search_ic = (\<lambda>p s. Some (is_substr (ascii_lower p) (ascii_lower s))),
      word_boundary_search = ascii_word_boundary_search \<rparr>"

subsection \<open>Example records\<close>

text \<open>
  A record whose only metadata is the tag \<open>debug\<close> and whose own threshold is \<open>0.0\<close>.
\<close>

definition zero_threshold_skill :: SkillMetadata where
  "zero_threshold_skill =
    \<lparr> name = py ''tracer'', path = py ''skills/tracer'', source = py ''project'',
      priority = py ''medium'', enforcement = py ''suggested'', description = [],
      keywords_korean = [], keywords_english = [], tags = [py ''debug''], use_cases = [],
      intent_patterns = [], auto_activate = True, confidence_threshold = 0 \<rparr>"

subsection \<open>Counting the query keywords that match a skill keyword\<close>

text \<open>
  Two ways of counting the query keywords of length at least 2 that are substrings of a
  skill keyword: \<open>occurrences\<close> counts the positions of the query keyword list,
  \<open>distinct_matches\<close> counts the distinct keywords, as the specification words it.
\<close>

definition occurrences :: "pystr list \<Rightarrow> pystr \<Rightarrow> nat" where
  "occurrences user_keywords skill_kw =
    card {i. i < length user_keywords \<and> is_substr (user_keywords ! i) skill_kw
             \<and> 2 \<le> length (user_keywords ! i)}"

definition distinct_matches :: "pystr list \<Rightarrow> pystr \<Rightarrow> nat" where
  "distinct_matches user_keywords skill_kw =
    card {uk \<in> set user_keywords. is_substr uk skill_kw \<and> 2 \<le> length uk}"

subsection \<open>The rule a query keyword falls under\<close>

text \<open>
  For the proofs about the per-keyword pass: whether one of its five rules applies to a
  query keyword, and the weight of the first rule that applies.
\<close>

definition kw_hit :: "pystr list \<Rightarrow> pystr list \<Rightarrow> pystr list \<Rightarrow> pystr list \<Rightarrow> pystr \<Rightarrow> bool" where
  "kw_hit skill_kws uc_kws desc_kws skill_tags user_kw =
    (user_kw \<in> set skill_kws \<or> user_kw \<in> set uc_kws \<or> user_kw \<in> set desc_kws
     \<or> list_ex (fuzzy_match user_kw) skill_kws \<or> user_kw \<in> set skill_tags)"

definition kw_weight ::
  "keyword_weights \<Rightarrow> pystr list \<Rightarrow> pystr list \<Rightarrow> pystr list \<Rightarrow> pystr list \<Rightarrow> pystr \<Rightarrow> real" where
  "kw_weight weights skill_kws uc_kws desc_kws skill_tags user_kw =
    (if user_kw \<in> set skill_kws then exact_match weights
     else if user_kw \<in> set uc_kws then use_case_match weights
     else if user_kw \<in> set desc_kws then partial_match weights
     else if list_ex (fuzzy_match user_kw) skill_kws then partial_match weights
     else if user_kw \<in> set skill_tags then tag_match weights
     else 0)"

text \<open>
  For the comparison of two runs of the compound pass, on the query keywords \<open>K\<close> and on
  \<open>K\<close> with \<open>k\<close> appended: how their states \<open>(M, s)\<close> and \<open>(M', s')\<close> are related after
  the same skill keywords.
\<close>

definition compound_related ::
  "pystr \<Rightarrow> pystr list \<Rightarrow> pystr set \<times> real \<Rightarrow> pystr set \<times> real \<Rightarrow> bool" where
  "compound_related k K st st' =
    (case st of (M, s) \<Rightarrow> case st' of (M', s') \<Rightarrow>
       M \<subseteq> M' \<and> M' \<subseteq> M \<union> insert k (set K) \<and> k \<notin> M
       \<and> (k \<notin> M' \<longrightarrow> M' = M \<and> s' = s)
       \<and> (k \<in> M' \<longrightarrow> s' - s \<ge> 3 * real (card ((M' - M) - {k})) + 2))"

section \<open>The index generator (index\_generator.py)\<close>

subsection \<open>Time\<close>

text \<open>
  \<open>time.time\<close> and \<open>time.sleep\<close> are library functions acting on the clock of the
  machine. The clock is explicit state. Every reading and every sleep is one step of it;
  \<open>lag n\<close> is the time that passes at the \<open>n\<close>-th step beyond what was asked for (the
  time since the step before, the time a sleep oversleeps). A clock that never runs
  backwards and a sleep that lasts at least as long as requested are the lags that are
  not negative. Times are Python floats, modelled as reals. \<open>time_sleep\<close> is for a
  duration that is not negative (a negative one raises \<open>ValueError\<close>, which the callers
  below test for).
\<close>

datatype py_error = IndexError | ValueError

record world =
  clock :: real
  ticks :: nat

definition time_time :: "(nat \<Rightarrow> real) \<Rightarrow> world \<Rightarrow> real \<times> world" where
  "time_time lag w =
    (let now = clock w + lag (ticks w) in (now, \<lparr> clock = now, ticks = Suc (ticks w) \<rparr>))"

definition time_sleep :: "(nat \<Rightarrow> real) \<Rightarrow> real \<Rightarrow> world \<Rightarrow> world" where
  "time_sleep lag secs w = \<lparr> clock = clock w + secs + lag (ticks w), ticks = Suc (ticks w) \<rparr>"

subsection \<open>RateLimiter\<close>

record RateLimiter =
  rpm :: int
  min_delay :: real
  request_times :: "real list"
  last_request_time :: real

definition RateLimiter_init :: "int \<Rightarrow> real \<Rightarrow> RateLimiter" where
  "RateLimiter_init r d = \<lparr> rpm = r, min_delay = d, request_times = [], last_request_time = 0 \<rparr>"

definition prune :: "real \<Rightarrow> real list \<Rightarrow> real list" where
  "prune now ts = filter (\<lambda>t. now - t < 60) ts"

definition record_request :: "real \<Rightarrow> RateLimiter \<Rightarrow> RateLimiter" where
  "record_request now rl =
    rl\<lparr> request_times := request_times rl @ [now], last_request_time := now \<rparr>"

text \<open>
  \<open>wait_if_needed\<close> in its four steps. The first enforces the minimum delay and yields
  the current time. The second prunes the timestamps older than a minute. The third
  waits, when the cap is reached, until the oldest timestamp is a minute old; it yields
  the current time again, or the \<open>IndexError\<close> of \<open>self.request_times[0]\<close> on an empty
  list. The fourth records the request. \<open>wait_if_needed\<close> returns nothing; the model
  returns the timestamp it records, or the error, with the limiter and the clock as they
  are then.
\<close>

definition enforce_min_delay :: "(nat \<Rightarrow> real) \<Rightarrow> RateLimiter \<Rightarrow> world \<Rightarrow> real \<times> world" where
  "enforce_min_delay lag rl w0 =
    (let (now, w1) = time_time lag w0;
         time_since_last = now - last_request_time rl
     in if time_since_last < min_delay rl
        then time_time lag (time_sleep lag (min_delay rl - time_since_last) w1)
        else (now, w1))"

definition enforce_rpm ::
  "(nat \<Rightarrow> real) \<Rightarrow> RateLimiter \<Rightarrow> real \<Rightarrow> world \<Rightarrow> (py_error + real) \<times> RateLimiter \<times> world" where
  "enforce_rpm lag rl now w =
    (if int (length (request_times rl)) \<ge> rpm rl
     then (case request_times rl of
             [] \<Rightarrow> (Inl IndexError, rl, w)
           | oldest # later \<Rightarrow>
               (let wait_time = 60 - (now - oldest) + 0.1
                in if wait_time > 0
                   then (let (now2, w2) = time_time lag (time_sleep lag wait_time w)
                         in (Inr now2, rl\<lparr> request_times := prune now2 (request_times rl) \<rparr>, w2))
                   else (Inr now, rl, w)))
     else (Inr now, rl, w))"

definition wait_if_needed ::
  "(nat \<Rightarrow> real) \<Rightarrow> RateLimiter \<times> world \<Rightarrow> (py_error + real) \<times> RateLimiter \<times> world" where
  "wait_if_needed lag st =
    (case st of (rl, w0) \<Rightarrow>
      (let (now, w1) = enforce_min_delay lag rl w0;
           rl1 = rl\<lparr> request_times := prune now (request_times rl) \<rparr>
       in (case enforce_rpm lag rl1 now w1 of
             (Inl e, rl2, w2) \<Rightarrow> (Inl e, rl2, w2)
           | (Inr now2, rl2, w2) \<Rightarrow> (Inr now2, record_request now2 rl2, w2))))"

text \<open>
  A sequence of calls on one limiter: the timestamps recorded so far, oldest first, and
  the state. A call that raises records nothing.
\<close>

fun wait_calls ::
  "(nat \<Rightarrow> real) \<Rightarrow> nat \<Rightarrow> RateLimiter \<times> world \<Rightarrow> real list \<times> RateLimiter \<times> world" where
  "wait_calls lag 0 st = ([], st)"
| "wait_calls lag (Suc n) st =
     (case wait_calls lag n st of (recorded, st1) \<Rightarrow>
        (case wait_if_needed lag st1 of
           (Inr now, st2) \<Rightarrow> (recorded @ [now], st2)
         | (Inl e, st2) \<Rightarrow> (recorded, st2)))"

text \<open>The recorded timestamps that lie in the 60 seconds up to and including \<open>T\<close>.\<close>

definition in_window :: "real \<Rightarrow> real list \<Rightarrow> real list" where
  "in_window T recorded = filter (\<lambda>t. T - 60 < t \<and> t \<le> T) recorded"

text \<open>
  What holds of a limiter, the clock and the timestamps \<open>recorded\<close> so far between any
  two calls of a sequence that started with a new limiter.
\<close>

definition limiter_inv :: "RateLimiter \<Rightarrow> world \<Rightarrow> real list \<Rightarrow> bool" where
  "limiter_inv rl w recorded =
    (request_times rl = (if recorded = [] then [] else prune (last recorded) recorded)
     \<and> (recorded \<noteq> [] \<longrightarrow> last_request_time rl = last recorded)
     \<and> (\<forall>t\<in>set recorded. t \<le> clock w)
     \<and> (rpm rl \<le> 0 \<longrightarrow> recorded = [])
     \<and> int (length (request_times rl)) \<le> max 0 (rpm rl)
     \<and> (\<forall>i. Suc i < length recorded \<longrightarrow> min_delay rl \<le> recorded ! Suc i - recorded ! i)
     \<and> (\<forall>T. int (length (in_window T recorded)) \<le> max 0 (rpm rl)))"

subsection \<open>AIClient.generate\<close>

text \<open>
  Of \<open>AIConfig\<close> the fields the retry loop and the index builder read. What a provider
  answers to a request is not code of the repository: \<open>env_respond n m\<close> is what the
  \<open>n\<close>-th request of the run, issued against the model \<open>m\<close>, does, either the text it
  returns or the text of the exception it raises. \<open>env_lag\<close> is the lag of the clock.
\<close>

record AIConfig =
  provider :: pystr
  model :: pystr
  fallback_models :: "pystr list"
  rate_limit_rpm :: int
  rate_limit_delay :: real
  max_retries :: int
  retry_delay :: real
  languages :: "pystr list"

datatype outcome = Returns pystr | Raises pystr

record genv =
  env_lag :: "nat \<Rightarrow> real"
  env_respond :: "nat \<Rightarrow> pystr \<Rightarrow> outcome"

text \<open>The four branches of the exception handler, in the order it tests them.\<close>

datatype failure_class = RateLimited | NotFound | ServerError | OtherFailure

definition classify :: "pylib \<Rightarrow> pystr \<Rightarrow> failure_class" where
  "classify L error_str =
    (if is_substr (py ''429'') error_str \<or> is_substr (py ''rate'') (str_lower L error_str)
       then RateLimited
     else if is_substr (py ''404'') error_str
             \<or> is_substr (py ''not found'') (str_lower L error_str)
       then NotFound
     else if list_ex (\<lambda>code. is_substr code error_str)
               [py ''500'', py ''502'', py ''503'', py ''504'']
       then ServerError
     else OtherFailure)"

definition error_text :: "py_error \<Rightarrow> pystr" where
  "error_text e =
    (case e of
       IndexError \<Rightarrow> py ''list index out of range''
     | ValueError \<Rightarrow> py ''sleep length must be non-negative'')"

text \<open>
  The client's state, with the clock and what the proofs observe: the number of
  requests issued so far and one entry for every attempt of the retry loop. An entry
  holds the position of the two loops, the model, whether the attempt issued a request
  (it does not when the rate limiter raises) and how its failure was classified
  (\<open>None\<close>: the request returned).
\<close>

record attempt =
  a_model_idx :: nat
  a_retry :: nat
  a_model :: pystr
  a_requested :: bool
  a_failure :: "failure_class option"

record client_state =
  rate_limiter :: RateLimiter
  current_model :: pystr
  the_world :: world
  issued :: nat
  trace :: "attempt list"
  last_error :: "pystr option"

datatype loop_exit = Return pystr | Break | Continue | Crash py_error

definition sleep_then_continue :: "genv \<Rightarrow> real \<Rightarrow> client_state \<Rightarrow> loop_exit \<times> client_state" where
  "sleep_then_continue env secs st =
    (if secs < 0 then (Crash ValueError, st)
     else (Continue, st\<lparr> the_world := time_sleep (env_lag env) secs (the_world st) \<rparr>))"

definition handle_failure ::
  "pylib \<Rightarrow> genv \<Rightarrow> AIConfig \<Rightarrow> nat \<Rightarrow> pystr \<Rightarrow> nat \<Rightarrow> bool \<Rightarrow> pystr \<Rightarrow> client_state \<Rightarrow>
   loop_exit \<times> client_state" where
  "handle_failure L env cfg model_idx mdl retry requested error_str st =
    (let st1 = st\<lparr> last_error := Some error_str,
                    trace := trace st @
                      [\<lparr> a_model_idx = model_idx, a_retry = retry, a_model = mdl,
                         a_requested = requested,
                         a_failure = Some (classify L error_str) \<rparr>] \<rparr>
     in case classify L error_str of
          RateLimited \<Rightarrow> sleep_then_continue env (retry_delay cfg * (real retry + 1) * 2) st1
        | NotFound \<Rightarrow> (Break, st1)
        | ServerError \<Rightarrow> sleep_then_continue env (retry_delay cfg * (real retry + 1)) st1
        | OtherFailure \<Rightarrow>
            (if int retry < max_retries cfg - 1
             then sleep_then_continue env (retry_delay cfg) st1
             else (Continue, st1)))"

text \<open>One pass through the body of the retry loop.\<close>

definition attempt_once ::
  "pylib \<Rightarrow> genv \<Rightarrow> AIConfig \<Rightarrow> nat \<Rightarrow> pystr \<Rightarrow> nat \<Rightarrow> client_state \<Rightarrow> loop_exit \<times> client_state" where
  "attempt_once L env cfg model_idx mdl retry st =
    (case wait_if_needed (env_lag env) (rate_limiter st, the_world st) of
       (Inl e, rl, w) \<Rightarrow>
         handle_failure L env cfg model_idx mdl retry False (error_text e)
           (st\<lparr> rate_limiter := rl, the_world := w \<rparr>)
     | (Inr now, rl, w) \<Rightarrow>
         (let st1 = st\<lparr> rate_limiter := rl, the_world := w, issued := Suc (issued st) \<rparr>
          in case env_respond env (issued st) mdl of
               Returns text \<Rightarrow>
                 (Return text,
                  st1\<lparr> trace := trace st1 @
                    [\<lparr> a_model_idx = model_idx, a_retry = retry, a_model = mdl,
                       a_requested = True, a_failure = None \<rparr>] \<rparr>)
             | Raises error_str \<Rightarrow>
                 handle_failure L env cfg model_idx mdl retry True error_str st1))"

text \<open>
  \<open>for retry in range(max_retries)\<close>, from \<open>retry\<close> with \<open>n\<close> passes left. \<open>Continue\<close> is
  the loop running off its end.
\<close>

fun retry_loop ::
  "pylib \<Rightarrow> genv \<Rightarrow> AIConfig \<Rightarrow> nat \<Rightarrow> pystr \<Rightarrow> nat \<Rightarrow> nat \<Rightarrow> client_state \<Rightarrow>
   loop_exit \<times> client_state" where
  "retry_loop L env cfg model_idx mdl retry 0 st = (Continue, st)"
| "retry_loop L env cfg model_idx mdl retry (Suc n) st =
     (case attempt_once L env cfg model_idx mdl retry st of
        (Continue, st1) \<Rightarrow> retry_loop L env cfg model_idx mdl (Suc retry) n st1
      | (Return text, st1) \<Rightarrow> (Return text, st1)
      | (Break, st1) \<Rightarrow> (Break, st1)
      | (Crash e, st1) \<Rightarrow> (Crash e, st1))"

datatype gen_result = Generated pystr | AllModelsFailed "pystr option" | Raised py_error

fun models_loop ::
  "pylib \<Rightarrow> genv \<Rightarrow> AIConfig \<Rightarrow> nat \<Rightarrow> pystr list \<Rightarrow> client_state \<Rightarrow> gen_result \<times> client_state" where
  "models_loop L env cfg model_idx [] st = (AllModelsFailed (last_error st), st)"
| "models_loop L env cfg model_idx (mdl # rest) st =
     (case retry_loop L env cfg model_idx mdl 0 (nat (max_retries cfg))
             (st\<lparr> current_model := mdl \<rparr>) of
        (Return text, st1) \<Rightarrow> (Generated text, st1)
      | (Crash e, st1) \<Rightarrow> (Raised e, st1)
      | (Break, st1) \<Rightarrow> models_loop L env cfg (Suc model_idx) rest st1
      | (Continue, st1) \<Rightarrow> models_loop L env cfg (Suc model_idx) rest st1)"

definition models_to_try :: "AIConfig \<Rightarrow> pystr list" where
  "models_to_try cfg = [model cfg] @ fallback_models cfg"

text \<open>One call of \<open>generate\<close>; the list of attempts starts empty.\<close>

definition generate ::
  "pylib \<Rightarrow> genv \<Rightarrow> AIConfig \<Rightarrow> client_state \<Rightarrow> gen_result \<times> client_state" where
  "generate L env cfg st =
    models_loop L env cfg 0 (models_to_try cfg) (st\<lparr> trace := [], last_error := None \<rparr>)"

text \<open>
  An attempt exhausts its model when its failure is classified as not found, or when it
  is the last of the \<open>max_retries\<close> attempts. \<open>follows\<close> is how an attempt stands to the
  attempt before it.
\<close>

definition exhausts :: "AIConfig \<Rightarrow> attempt \<Rightarrow> bool" where
  "exhausts cfg a = (a_failure a = Some NotFound \<or> int (a_retry a) + 1 = max_retries cfg)"

definition follows :: "AIConfig \<Rightarrow> attempt \<Rightarrow> attempt \<Rightarrow> bool" where
  "follows cfg a b =
    (a_failure a \<noteq> None
     \<and> (if exhausts cfg a
        then a_model_idx b = Suc (a_model_idx a) \<and> a_retry b = 0
        else a_model_idx b = a_model_idx a \<and> a_retry b = Suc (a_retry a)))"

text \<open>The models of the requests that were issued, in the order of issue.\<close>

definition requests :: "attempt list \<Rightarrow> pystr list" where
  "requests tr = map a_model (filter a_requested tr)"

text \<open>
  For the proofs about the retry loop: the attempts so far are well formed, an attempt
  at the position \<open>(i, r)\<close> of the two loops may come next, and a rate limiter that has
  raised (it holds no timestamp and its cap is not positive).
\<close>

definition wf_trace :: "AIConfig \<Rightarrow> attempt list \<Rightarrow> bool" where
  "wf_trace cfg t =
    (successively (follows cfg) t
     \<and> (\<forall>a\<in>set t. int (a_retry a) < max_retries cfg)
     \<and> (t \<noteq> [] \<longrightarrow> a_model_idx (hd t) = 0 \<and> a_retry (hd t) = 0))"

definition may_follow :: "AIConfig \<Rightarrow> attempt list \<Rightarrow> nat \<Rightarrow> nat \<Rightarrow> bool" where
  "may_follow cfg t i r =
    (if t = [] then r = 0 \<and> (i = 0 \<or> max_retries cfg \<le> 0)
     else a_failure (last t) \<noteq> None
          \<and> (if exhausts cfg (last t)
             then i = Suc (a_model_idx (last t)) \<and> r = 0
             else i = a_model_idx (last t) \<and> r = Suc (a_retry (last t))))"

definition dead_limiter :: "RateLimiter \<Rightarrow> bool" where
  "dead_limiter rl = (request_times rl = [] \<and> rpm rl \<le> 0)"

section \<open>Properties of the registry merge\<close>

lemmas scenario_A_defs =
  scenario_A_paths_def discover_skill_paths_def candidate_def
  scenario_A_project_def scenario_A_user_def scenario_A_entry_def scenario_A_frontmatter_def
  scenario_A_document_record_def

lemmas loader_defs =
  load_tier_def load_index_yaml_def index_record_def merge_indexed_def scan_item_def
  load_skill_from_directory_def dflt_def joinpath_def py_def

lemma merge_lists:
  "keywords_korean (merge_index_entry e i) =
     (if keywords_korean e = [] then keywords_korean i else keywords_korean e)"
  "keywords_english (merge_index_entry e i) =
     (if keywords_english e = [] then keywords_english i else keywords_english e)"
  "tags (merge_index_entry e i) = (if tags e = [] then tags i else tags e)"
  "use_cases (merge_index_entry e i) = (if use_cases e = [] then use_cases i else use_cases e)"
  by (simp_all add: merge_index_entry_def Let_def)

lemma merge_scalars:
  "priority (merge_index_entry e i) =
     (if priority i \<noteq> py ''medium'' then priority i else priority e)"
  "confidence_threshold (merge_index_entry e i) =
     (if confidence_threshold i \<noteq> 0.5 then confidence_threshold i else confidence_threshold e)"
  "auto_activate (merge_index_entry e i) = (auto_activate i \<and> auto_activate e)"
  by (simp_all add: merge_index_entry_def Let_def)

lemma merge_frame:
  "name (merge_index_entry e i) = name e"
  "path (merge_index_entry e i) = path e"
  "source (merge_index_entry e i) = source e"
  "enforcement (merge_index_entry e i) = enforcement e"
  "description (merge_index_entry e i) = description e"
  "intent_patterns (merge_index_entry e i) = intent_patterns e"
  by (simp_all add: merge_index_entry_def Let_def)

lemma merge_indexed_present:
  "map_of skills n = Some existing \<Longrightarrow>
   map_of (merge_indexed skills (n, i)) n = Some (merge_index_entry existing i)"
  by (simp add: merge_indexed_def update_conv')

lemma merge_indexed_other:
  "m \<noteq> n \<Longrightarrow> map_of (merge_indexed skills (n, i)) m = map_of skills m"
  by (simp add: merge_indexed_def update_conv' split: option.splits)

text \<open>
  Claim C1 (Scenario A), as amended. The tiers are processed in reverse priority order,
  so the user tier is loaded before the project tier, and loading a document stores its
  record under the skill's name whatever is already there. Hence: when the
  highest-priority tier is a directory holding exactly one skill directory, whose
  document loads, and no INDEX.yaml, the registry's record under that skill's name is
  the document's record as loaded, whatever the lower tiers hold. In Scenario A the
  record of \<open>debug-helper\<close> keeps the keywords \<open>[debug, error]\<close> and has \<open>tags = []\<close>.
\<close>

theorem C1_document_replaces_lower_tiers:
  assumes "sd_is_dir d" and "sd_items d = [SubDir dn md]" and "sd_index d = NoIndex"
    and "load_skill_from_directory (joinpath (sd_path d) dn) dn md src = Some skill"
  shows "map_of (load_all_skills ((d, src) # lower)) (name skill) = Some skill"
  using assms by (simp add: load_all_skills_def load_tier_def scan_item_def update_conv')

theorem C1_document_replaces_lower_tiers_witness:
  "sd_is_dir scenario_A_project
   \<and> sd_items scenario_A_project =
       [SubDir (py ''debug-helper'') (Document (Some scenario_A_frontmatter))]
   \<and> sd_index scenario_A_project = NoIndex
   \<and> load_skill_from_directory (joinpath (sd_path scenario_A_project) (py ''debug-helper''))
        (py ''debug-helper'') (Document (Some scenario_A_frontmatter)) (py ''project'')
      = Some scenario_A_document_record
   \<and> scenario_A_paths = [(scenario_A_project, py ''project''), (scenario_A_user, py ''user'')]
   \<and> map_of (load_all_skills scenario_A_paths) (name scenario_A_document_record)
      = Some scenario_A_document_record
   \<and> keywords_english scenario_A_document_record = [py ''debug'', py ''error'']
   \<and> tags scenario_A_document_record = []"
proof -
  have h1: "sd_is_dir scenario_A_project" by (simp add: scenario_A_project_def)
  have h2: "sd_items scenario_A_project =
      [SubDir (py ''debug-helper'') (Document (Some scenario_A_frontmatter))]"
    by (simp add: scenario_A_project_def)
  have h3: "sd_index scenario_A_project = NoIndex" by (simp add: scenario_A_project_def)
  have h4: "load_skill_from_directory (joinpath (sd_path scenario_A_project) (py ''debug-helper''))
        (py ''debug-helper'') (Document (Some scenario_A_frontmatter)) (py ''project'')
      = Some scenario_A_document_record"
    by (simp add: scenario_A_defs loader_defs)
  have h5: "scenario_A_paths = [(scenario_A_project, py ''project''), (scenario_A_user, py ''user'')]"
    by (simp add: scenario_A_paths_def discover_skill_paths_def candidate_def
        scenario_A_project_def scenario_A_user_def)
  have h6: "keywords_english scenario_A_document_record = [py ''debug'', py ''error'']
     \<and> tags scenario_A_document_record = []"
    by (simp add: scenario_A_document_record_def)
  from C1_document_replaces_lower_tiers [OF h1 h2 h3 h4, of "[(scenario_A_user, py ''user'')]"]
  show ?thesis using h1 h2 h3 h4 h5 h6 by simp
qed

text \<open>
  Claim C1 as stated fails: in Scenario A the registry's record of \<open>debug-helper\<close> is
  the project document's record, whose tags are empty, not \<open>[diagnostics]\<close>.
\<close>

theorem C1_scenario_A_counterexample:
  "map_of (load_all_skills scenario_A_paths) (py ''debug-helper'') = Some scenario_A_document_record
   \<and> tags scenario_A_document_record \<noteq> [py ''diagnostics'']"
  by (simp add: load_all_skills_def scenario_A_defs loader_defs)

text \<open>
  Claim C2. When an INDEX.yaml entry merges into a record already in the registry under
  the same name, every list field of the existing record that is not empty (Korean
  keywords, English keywords, tags, use cases) is kept as it is, whatever the entry
  holds; and an entry with priority \<open>medium\<close>, threshold \<open>0.5\<close> or \<open>auto_activate\<close> true
  leaves the existing priority, threshold or \<open>auto_activate\<close> as it is.
\<close>

theorem C2_additive_merge:
  assumes "map_of skills skill_name = Some existing"
  shows "\<exists>merged. map_of (merge_indexed skills (skill_name, indexed_skill)) skill_name = Some merged
     \<and> (keywords_korean existing \<noteq> [] \<longrightarrow> keywords_korean merged = keywords_korean existing)
     \<and> (keywords_english existing \<noteq> [] \<longrightarrow> keywords_english merged = keywords_english existing)
     \<and> (tags existing \<noteq> [] \<longrightarrow> tags merged = tags existing)
     \<and> (use_cases existing \<noteq> [] \<longrightarrow> use_cases merged = use_cases existing)
     \<and> (priority indexed_skill = py ''medium'' \<longrightarrow> priority merged = priority existing)
     \<and> (confidence_threshold indexed_skill = 0.5 \<longrightarrow>
            confidence_threshold merged = confidence_threshold existing)
     \<and> (auto_activate indexed_skill \<longrightarrow> auto_activate merged = auto_activate existing)"
  using assms by (simp add: merge_indexed_present merge_lists merge_scalars)

theorem C2_additive_merge_witness:
  "map_of [(py ''debug-helper'', scenario_A_document_record)] (py ''debug-helper'')
     = Some scenario_A_document_record
   \<and> keywords_english scenario_A_document_record \<noteq> []
   \<and> keywords_english (index_record scenario_A_user (py ''user'') (py ''debug-helper'') scenario_A_entry) = []
   \<and> priority (index_record scenario_A_user (py ''user'') (py ''debug-helper'') scenario_A_entry) = py ''medium''
   \<and> confidence_threshold (index_record scenario_A_user (py ''user'') (py ''debug-helper'') scenario_A_entry) = 0.5
   \<and> auto_activate (index_record scenario_A_user (py ''user'') (py ''debug-helper'') scenario_A_entry)
   \<and> (\<exists>merged. map_of (merge_indexed [(py ''debug-helper'', scenario_A_document_record)]
          (py ''debug-helper'',
           index_record scenario_A_user (py ''user'') (py ''debug-helper'') scenario_A_entry))
          (py ''debug-helper'') = Some merged
        \<and> keywords_english merged = [py ''debug'', py ''error'']
        \<and> priority merged = py ''medium'' \<and> confidence_threshold merged = 0.5
        \<and> auto_activate merged)"
proof -
  have h: "map_of [(py ''debug-helper'', scenario_A_document_record)] (py ''debug-helper'')
     = Some scenario_A_document_record" by simp
  have i: "keywords_english (index_record scenario_A_user (py ''user'') (py ''debug-helper'') scenario_A_entry) = []
    \<and> priority (index_record scenario_A_user (py ''user'') (py ''debug-helper'') scenario_A_entry) = py ''medium''
    \<and> confidence_threshold (index_record scenario_A_user (py ''user'') (py ''debug-helper'') scenario_A_entry) = 0.5
    \<and> auto_activate (index_record scenario_A_user (py ''user'') (py ''debug-helper'') scenario_A_entry)"
    by (simp add: index_record_def scenario_A_entry_def dflt_def)
  have e: "keywords_english scenario_A_document_record = [py ''debug'', py ''error'']
    \<and> priority scenario_A_document_record = py ''medium''
    \<and> confidence_threshold scenario_A_document_record = 0.5
    \<and> auto_activate scenario_A_document_record"
    by (simp add: scenario_A_document_record_def)
  from C2_additive_merge [OF h,
      of "index_record scenario_A_user (py ''user'') (py ''debug-helper'') scenario_A_entry"]
  show ?thesis using h i e by auto
qed

text \<open>
  Claim C10. The same merge leaves the existing record's name, path, source,
  enforcement, description and intent patterns as they are: nothing of the artifact's
  description or intent patterns reaches a record that is already in the registry.
\<close>

theorem C10_merge_frame:
  assumes "map_of skills skill_name = Some existing"
  shows "\<exists>merged. map_of (merge_indexed skills (skill_name, indexed_skill)) skill_name = Some merged
     \<and> name merged = name existing \<and> path merged = path existing
     \<and> source merged = source existing \<and> enforcement merged = enforcement existing
     \<and> description merged = description existing
     \<and> intent_patterns merged = intent_patterns existing"
  using assms by (simp add: merge_indexed_present merge_frame)

theorem C10_merge_frame_witness:
  "map_of [(py ''debug-helper'', scenario_A_document_record)] (py ''debug-helper'')
     = Some scenario_A_document_record
   \<and> (\<exists>merged. map_of (merge_indexed [(py ''debug-helper'', scenario_A_document_record)]
          (py ''debug-helper'',
           index_record scenario_A_user (py ''user'') (py ''debug-helper'')
             (scenario_A_entry\<lparr>ie_description := Some (py ''from the artifact'')\<rparr>)))
          (py ''debug-helper'') = Some merged
        \<and> name merged = py ''debug-helper'' \<and> source merged = py ''project''
        \<and> description merged = [] \<and> intent_patterns merged = [])"
proof -
  have h: "map_of [(py ''debug-helper'', scenario_A_document_record)] (py ''debug-helper'')
     = Some scenario_A_document_record" by simp
  have e: "name scenario_A_document_record = py ''debug-helper''
    \<and> source scenario_A_document_record = py ''project''
    \<and> description scenario_A_document_record = []
    \<and> intent_patterns scenario_A_document_record = []"
    by (simp add: scenario_A_document_record_def)
  from C10_merge_frame [OF h,
      of "index_record scenario_A_user (py ''user'') (py ''debug-helper'')
             (scenario_A_entry\<lparr>ie_description := Some (py ''from the artifact'')\<rparr>)"]
  show ?thesis using h e by auto
qed

section \<open>Properties of the query normalisation\<close>

lemma strip_particle_none:
  "\<forall>p\<in>set ps. \<not> (endswith w p \<and> length w > length p + 1) \<Longrightarrow> strip_particle ps w = w"
  by (induction ps) auto

lemma strip_particle_first:
  "\<forall>r\<in>set ps1. \<not> (endswith w r \<and> length w > length r + 1) \<Longrightarrow>
   endswith w q \<Longrightarrow> length w > length q + 1 \<Longrightarrow>
   strip_particle (ps1 @ q # ps2) w = drop_last (length q) w"
  by (induction ps1) auto

lemma strip_particle_cases:
  "(\<forall>p\<in>set ps. \<not> (endswith w p \<and> length w > length p + 1)) \<and> strip_particle ps w = w
   \<or> (\<exists>ps1 q ps2. ps = ps1 @ q # ps2
        \<and> (\<forall>r\<in>set ps1. \<not> (endswith w r \<and> length w > length r + 1))
        \<and> endswith w q \<and> length w > length q + 1
        \<and> strip_particle ps w = drop_last (length q) w)"
proof (induction ps)
  case Nil
  then show ?case by simp
next
  case (Cons p ps)
  show ?case
  proof (cases "endswith w p \<and> length w > length p + 1")
    case True
    have "p # ps = [] @ p # ps
        \<and> (\<forall>r\<in>set []. \<not> (endswith w r \<and> length w > length r + 1))
        \<and> endswith w p \<and> length w > length p + 1
        \<and> strip_particle (p # ps) w = drop_last (length p) w" using True by simp
    then show ?thesis
      by blast
  next
    case False
    from Cons.IH show ?thesis
    proof
      assume "(\<forall>p\<in>set ps. \<not> (endswith w p \<and> length w > length p + 1)) \<and> strip_particle ps w = w"
      with False have "(\<forall>r\<in>set (p # ps). \<not> (endswith w r \<and> length w > length r + 1))
          \<and> strip_particle (p # ps) w = w" by auto
      then show ?thesis by (rule disjI1)
    next
      assume "\<exists>ps1 q ps2. ps = ps1 @ q # ps2
        \<and> (\<forall>r\<in>set ps1. \<not> (endswith w r \<and> length w > length r + 1))
        \<and> endswith w q \<and> length w > length q + 1
        \<and> strip_particle ps w = drop_last (length q) w"
      then obtain ps1 q ps2 where h: "ps = ps1 @ q # ps2"
        "\<forall>r\<in>set ps1. \<not> (endswith w r \<and> length w > length r + 1)"
        "endswith w q" "length w > length q + 1"
        "strip_particle ps w = drop_last (length q) w" by blast
      with False have "p # ps = (p # ps1) @ q # ps2
        \<and> (\<forall>r\<in>set (p # ps1). \<not> (endswith w r \<and> length w > length r + 1))
        \<and> endswith w q \<and> length w > length q + 1
        \<and> strip_particle (p # ps) w = drop_last (length q) w" by auto
      then show ?thesis
        by blast
    qed
  qed
qed

lemma drop_last_endswith:
  assumes "endswith w q" and "length w > length q + 1" and "q \<noteq> []"
  shows "w = drop_last (length q) w @ q \<and> 2 \<le> length (drop_last (length q) w)"
proof -
  from assms have d: "drop (length w - length q) w = q" by (simp add: endswith_def)
  have "take (length w - length q) w @ drop (length w - length q) w = w"
    by (rule append_take_drop_id)
  with d have "w = take (length w - length q) w @ q" by simp
  moreover from assms have "2 \<le> length (take (length w - length q) w)" by simp
  ultimately show ?thesis using assms(3) by (simp add: drop_last_def)
qed

lemma particles_nonempty: "\<forall>p\<in>set KOREAN_PARTICLES. p \<noteq> []"
  by (simp add: KOREAN_PARTICLES_def)

text \<open>
  Claim C7, as amended. \<open>_extract_keywords\<close> passes every token of at least two
  characters through the particle loop and keeps the results that are no stopwords. The
  loop cuts off the first particle of the list that the token ends with and that leaves
  a stem of at least two characters (\<open>len(w) > len(particle) + 1\<close>); a token for which
  no particle of the list passes both tests is kept unmodified.
\<close>

theorem C7_particle_stripping:
  "extract_keywords L text =
     filter (\<lambda>c. c \<notin> set STOPWORDS)
       (map (strip_particle KOREAN_PARTICLES)
         (filter (\<lambda>w. 2 \<le> length w) (map (strip L) (split L (normalize L text)))))
   \<and> ((\<forall>p\<in>set KOREAN_PARTICLES. \<not> (endswith w p \<and> length w > length p + 1))
        \<longrightarrow> strip_particle KOREAN_PARTICLES w = w)
   \<and> ((\<exists>p\<in>set KOREAN_PARTICLES. endswith w p \<and> length w > length p + 1)
        \<longrightarrow> (\<exists>ps1 q ps2. KOREAN_PARTICLES = ps1 @ q # ps2
              \<and> (\<forall>r\<in>set ps1. \<not> (endswith w r \<and> length w > length r + 1))
              \<and> endswith w q \<and> length w > length q + 1
              \<and> w = strip_particle KOREAN_PARTICLES w @ q
              \<and> 2 \<le> length (strip_particle KOREAN_PARTICLES w)))"
proof (intro conjI impI)
  have stem: "strip_particle KOREAN_PARTICLES v \<noteq> []" if "2 \<le> length v" for v
  proof -
    from strip_particle_cases [of KOREAN_PARTICLES v] show ?thesis
    proof
      assume "(\<forall>p\<in>set KOREAN_PARTICLES. \<not> (endswith v p \<and> length v > length p + 1))
         \<and> strip_particle KOREAN_PARTICLES v = v"
      with that show ?thesis by auto
    next
      assume "\<exists>ps1 q ps2. KOREAN_PARTICLES = ps1 @ q # ps2
        \<and> (\<forall>r\<in>set ps1. \<not> (endswith v r \<and> length v > length r + 1))
        \<and> endswith v q \<and> length v > length q + 1
        \<and> strip_particle KOREAN_PARTICLES v = drop_last (length q) v"
      then obtain ps1 q ps2 where h: "KOREAN_PARTICLES = ps1 @ q # ps2"
        "endswith v q" "length v > length q + 1"
        "strip_particle KOREAN_PARTICLES v = drop_last (length q) v" by blast
      have "q \<in> set (ps1 @ q # ps2)" by simp
      with h(1) have "q \<in> set KOREAN_PARTICLES" by metis
      with particles_nonempty have "q \<noteq> []" by blast
      from drop_last_endswith [OF h(2) h(3) this] h(4) show ?thesis by auto
    qed
  qed
  have "extract_words L ws =
     filter (\<lambda>c. c \<notin> set STOPWORDS)
       (map (strip_particle KOREAN_PARTICLES)
         (filter (\<lambda>w. 2 \<le> length w) (map (strip L) ws)))" for ws
    by (induction ws) (auto simp: Let_def stem)
  then show "extract_keywords L text =
     filter (\<lambda>c. c \<notin> set STOPWORDS)
       (map (strip_particle KOREAN_PARTICLES)
         (filter (\<lambda>w. 2 \<le> length w) (map (strip L) (split L (normalize L text)))))"
    by (simp add: extract_keywords_def)
next
  assume "\<forall>p\<in>set KOREAN_PARTICLES. \<not> (endswith w p \<and> length w > length p + 1)"
  then show "strip_particle KOREAN_PARTICLES w = w" by (rule strip_particle_none)
next
  assume "\<exists>p\<in>set KOREAN_PARTICLES. endswith w p \<and> length w > length p + 1"
  with strip_particle_cases [of KOREAN_PARTICLES w]
  obtain ps1 q ps2 where h: "KOREAN_PARTICLES = ps1 @ q # ps2"
        "\<forall>r\<in>set ps1. \<not> (endswith w r \<and> length w > length r + 1)"
        "endswith w q" "length w > length q + 1"
        "strip_particle KOREAN_PARTICLES w = drop_last (length q) w" by blast
  have "q \<in> set (ps1 @ q # ps2)" by simp
  with h(1) have "q \<in> set KOREAN_PARTICLES" by metis
  with particles_nonempty have "q \<noteq> []" by blast
  from drop_last_endswith [OF h(3) h(4) this] h
  show "\<exists>ps1 q ps2. KOREAN_PARTICLES = ps1 @ q # ps2
              \<and> (\<forall>r\<in>set ps1. \<not> (endswith w r \<and> length w > length r + 1))
              \<and> endswith w q \<and> length w > length q + 1
              \<and> w = strip_particle KOREAN_PARTICLES w @ q
              \<and> 2 \<le> length (strip_particle KOREAN_PARTICLES w)" by metis
qed

theorem C7_particle_stripping_witness:
  "\<not> (\<exists>p\<in>set KOREAN_PARTICLES. endswith (py ''ab'') p \<and> length (py ''ab'') > length p + 1)
   \<and> strip_particle KOREAN_PARTICLES (py ''ab'') = py ''ab''
   \<and> (\<exists>p\<in>set KOREAN_PARTICLES. endswith [54617, 44368, 51012] p
          \<and> length [54617, 44368, 51012 :: nat] > length p + 1)
   \<and> (\<exists>ps1 q ps2. KOREAN_PARTICLES = ps1 @ q # ps2
          \<and> (\<forall>r\<in>set ps1. \<not> (endswith [54617, 44368, 51012] r
                \<and> length [54617, 44368, 51012 :: nat] > length r + 1))
          \<and> endswith [54617, 44368, 51012] q
          \<and> length [54617, 44368, 51012 :: nat] > length q + 1
          \<and> [54617, 44368, 51012] = strip_particle KOREAN_PARTICLES [54617, 44368, 51012] @ q
          \<and> 2 \<le> length (strip_particle KOREAN_PARTICLES [54617, 44368, 51012]))"
proof -
  have h1: "\<forall>p\<in>set KOREAN_PARTICLES.
      \<not> (endswith (py ''ab'') p \<and> length (py ''ab'') > length p + 1)"
    by (simp add: KOREAN_PARTICLES_def endswith_def py_def)
  have h2: "\<exists>p\<in>set KOREAN_PARTICLES. endswith [54617, 44368, 51012] p
          \<and> length [54617, 44368, 51012 :: nat] > length p + 1"
    by (simp add: KOREAN_PARTICLES_def endswith_def)
  from C7_particle_stripping [of ascii_lib "[]" "py ''ab''"]
       C7_particle_stripping [of ascii_lib "[]" "[54617, 44368, 51012]"] h1 h2
  show ?thesis by blast
qed

text \<open>
  Claim C7 as stated fails for the two-character particles: the token U+D559 U+AD50
  U+C5D0 U+C11C ends with the particle U+C5D0 U+C11C, the stem left has two
  characters and so is not longer than the particle, and the particle is cut off all
  the same.
\<close>

theorem C7_counterexample:
  "2 \<le> length [54617, 44368, 50640, 49436 :: nat]
   \<and> [50640, 49436] \<in> set KOREAN_PARTICLES
   \<and> endswith [54617, 44368, 50640, 49436 :: nat] [50640, 49436]
   \<and> \<not> length [54617, 44368 :: nat] > length [50640, 49436 :: nat]
   \<and> strip_particle KOREAN_PARTICLES [54617, 44368, 50640, 49436] = [54617, 44368]
   \<and> strip_particle KOREAN_PARTICLES [54617, 44368, 50640, 49436] \<noteq> [54617, 44368, 50640, 49436]"
  by (simp add: KOREAN_PARTICLES_def endswith_def drop_last_def)

section \<open>Properties of the candidate selection\<close>

lemmas ascii_defs = ascii_lib_def ascii_lower_def ascii_word_char_def ascii_space_def
  ascii_letter_def is_hangul_def

lemma collect_matches_filter:
  "collect_matches L config ov uks msg skills =
     filter (\<lambda>m. snd m \<ge> skill_threshold ov (global_confidence_threshold config) (fst m))
       (map (\<lambda>skill. (skill, calculate_match_score L config uks skill msg))
         (filter auto_activate skills))"
  by (induction skills) (simp_all add: Let_def)

lemma set_slice_to: "set (slice_to n xs) \<subseteq> set xs"
  by (auto simp: slice_to_def dest: in_set_takeD)

lemma extract_debug_payment:
  "extract_keywords ascii_lib (py ''debug payment'') = [py ''debug'', py ''payment'']"
  by (simp add: extract_keywords_def normalize_def split_def strip_def ascii_defs py_def
      KOREAN_PARTICLES_def STOPWORDS_def endswith_def)

lemma score_zero_threshold_skill:
  "calculate_match_score ascii_lib DEFAULT_CONFIG [py ''debug'', py ''payment'']
     zero_threshold_skill (py ''debug payment'') = 1 / 3"
  by (simp add: calculate_match_score_def raw_score_def score_state_def Let_def
      intent_score_def primary_pass_def flat_keywords_def skill_keywords_def desc_keywords_def
      use_case_keywords_def compound_pass_def individual_pass_def individual_step_def
      use_case_pass_def stemming_pass_def stemming_inner_def
      zero_threshold_skill_def DEFAULT_CONFIG_def ascii_defs py_def dflt_def)

lemma score_low_threshold_skill:
  "calculate_match_score ascii_lib DEFAULT_CONFIG [py ''debug'', py ''payment'']
     (zero_threshold_skill\<lparr>confidence_threshold := 0.3\<rparr>) (py ''debug payment'') = 1 / 3"
  by (simp add: calculate_match_score_def raw_score_def score_state_def Let_def
      intent_score_def primary_pass_def flat_keywords_def skill_keywords_def desc_keywords_def
      use_case_keywords_def compound_pass_def individual_pass_def individual_step_def
      use_case_pass_def stemming_pass_def stemming_inner_def
      zero_threshold_skill_def DEFAULT_CONFIG_def ascii_defs py_def dflt_def)

text \<open>
  Claim C5, as amended. Every match \<open>detect_skills\<close> returns is a record with
  \<open>auto_activate\<close> and its score, and the score reaches: the caller's override threshold
  when one was supplied; otherwise the record's own \<open>confidence_threshold\<close> when that is
  not zero; otherwise (the record's threshold is \<open>0.0\<close>, which \<open>or\<close> takes as unset) the
  registry's global default. The loop selects exactly the auto-activating records whose
  score reaches that threshold.
\<close>

theorem C5_threshold_precedence:
  "(m \<in> set (detect_skills L config override_threshold skills user_message) \<longrightarrow>
      auto_activate (fst m)
      \<and> snd m = calculate_match_score L config (extract_keywords L user_message) (fst m) user_message
      \<and> (override_threshold = Some t \<longrightarrow> snd m \<ge> t)
      \<and> (override_threshold = None \<and> confidence_threshold (fst m) \<noteq> 0 \<longrightarrow>
            snd m \<ge> confidence_threshold (fst m))
      \<and> (override_threshold = None \<and> confidence_threshold (fst m) = 0 \<longrightarrow>
            snd m \<ge> global_confidence_threshold config))
   \<and> collect_matches L config override_threshold user_keywords user_message records =
       filter (\<lambda>m. snd m \<ge> (case override_threshold of
                                Some t \<Rightarrow> t
                              | None \<Rightarrow> if confidence_threshold (fst m) \<noteq> 0
                                        then confidence_threshold (fst m)
                                        else global_confidence_threshold config))
         (map (\<lambda>skill. (skill, calculate_match_score L config user_keywords skill user_message))
           (filter auto_activate records))"
proof (intro conjI impI)
  assume a: "m \<in> set (detect_skills L config override_threshold skills user_message)"
  let ?K = "extract_keywords L user_message"
  from a have ne: "?K \<noteq> []" by (auto simp: detect_skills_def Let_def split: if_splits)
  with a have "m \<in> set (slice_to (max_suggestions config) (sort_key (\<lambda>m. - snd m)
      (collect_matches L config override_threshold ?K user_message (map snd skills))))"
    by (simp add: detect_skills_def Let_def)
  with set_slice_to have "m \<in> set (collect_matches L config override_threshold ?K user_message (map snd skills))"
    by fastforce
  then have m: "auto_activate (fst m)"
      "snd m = calculate_match_score L config ?K (fst m) user_message"
      "snd m \<ge> skill_threshold override_threshold (global_confidence_threshold config) (fst m)"
    by (auto simp: collect_matches_filter)
  show "auto_activate (fst m)" by (rule m(1))
  show "snd m = calculate_match_score L config ?K (fst m) user_message" by (rule m(2))
  show "snd m \<ge> t" if "override_threshold = Some t" using m(3) that by (simp add: skill_threshold_def)
  show "snd m \<ge> confidence_threshold (fst m)"
    if "override_threshold = None \<and> confidence_threshold (fst m) \<noteq> 0"
    using m(3) that by (simp add: skill_threshold_def)
  show "snd m \<ge> global_confidence_threshold config"
    if "override_threshold = None \<and> confidence_threshold (fst m) = 0"
    using m(3) that by (simp add: skill_threshold_def)
next
  show "collect_matches L config override_threshold user_keywords user_message records =
       filter (\<lambda>m. snd m \<ge> (case override_threshold of
                                Some t \<Rightarrow> t
                              | None \<Rightarrow> if confidence_threshold (fst m) \<noteq> 0
                                        then confidence_threshold (fst m)
                                        else global_confidence_threshold config))
         (map (\<lambda>skill. (skill, calculate_match_score L config user_keywords skill user_message))
           (filter auto_activate records))"
    by (simp add: collect_matches_filter skill_threshold_def)
qed

theorem C5_threshold_precedence_witness:
  "(zero_threshold_skill\<lparr>confidence_threshold := 0.3\<rparr>, 1 / 3)
     \<in> set (detect_skills ascii_lib DEFAULT_CONFIG None
              [(py ''tracer'', zero_threshold_skill\<lparr>confidence_threshold := 0.3\<rparr>)]
              (py ''debug payment''))
   \<and> confidence_threshold (zero_threshold_skill\<lparr>confidence_threshold := 0.3\<rparr>) \<noteq> 0
   \<and> (1 / 3 :: real) \<ge> confidence_threshold (zero_threshold_skill\<lparr>confidence_threshold := 0.3\<rparr>)"
proof -
  have a: "auto_activate (zero_threshold_skill\<lparr>confidence_threshold := 0.3\<rparr>)"
    by (simp add: zero_threshold_skill_def)
  have g: "global_confidence_threshold DEFAULT_CONFIG = 0.5 \<and> max_suggestions DEFAULT_CONFIG = 3"
    by (simp add: DEFAULT_CONFIG_def)
  have m: "(zero_threshold_skill\<lparr>confidence_threshold := 0.3\<rparr>, 1 / 3)
     \<in> set (detect_skills ascii_lib DEFAULT_CONFIG None
              [(py ''tracer'', zero_threshold_skill\<lparr>confidence_threshold := 0.3\<rparr>)]
              (py ''debug payment''))"
    using a g
    by (simp add: detect_skills_def extract_debug_payment score_low_threshold_skill
        skill_threshold_def slice_to_def)
  have c: "confidence_threshold (zero_threshold_skill\<lparr>confidence_threshold := 0.3\<rparr>) \<noteq> 0"
    by simp
  from C5_threshold_precedence [of "(zero_threshold_skill\<lparr>confidence_threshold := 0.3\<rparr>, 1 / 3)"
      ascii_lib DEFAULT_CONFIG None
      "[(py ''tracer'', zero_threshold_skill\<lparr>confidence_threshold := 0.3\<rparr>)]"
      "py ''debug payment''" 0 "[]" "[]"] m c
  show ?thesis by simp
qed

text \<open>
  Claim C5 as stated fails for a record whose own threshold is \<open>0.0\<close>: without an
  override, its score \<open>1/3\<close> reaches its own threshold, but it is compared against the
  global default \<open>0.5\<close> and the record is not selected.
\<close>

theorem C5_counterexample:
  "detect_skills ascii_lib DEFAULT_CONFIG None [(py ''tracer'', zero_threshold_skill)]
      (py ''debug payment'') = []
   \<and> auto_activate zero_threshold_skill
   \<and> calculate_match_score ascii_lib DEFAULT_CONFIG
        (extract_keywords ascii_lib (py ''debug payment'')) zero_threshold_skill
        (py ''debug payment'') = 1 / 3
   \<and> confidence_threshold zero_threshold_skill = 0
   \<and> global_confidence_threshold DEFAULT_CONFIG = 0.5"
proof -
  have a: "auto_activate zero_threshold_skill \<and> confidence_threshold zero_threshold_skill = 0"
    by (simp add: zero_threshold_skill_def)
  have g: "global_confidence_threshold DEFAULT_CONFIG = 0.5 \<and> max_suggestions DEFAULT_CONFIG = 3"
    by (simp add: DEFAULT_CONFIG_def)
  show ?thesis
    using a g
    by (simp add: detect_skills_def extract_debug_payment score_zero_threshold_skill
        skill_threshold_def slice_to_def)
qed

section \<open>Properties of the compound pass\<close>

lemma occurrences_length: "occurrences K sk = length (matching_parts K sk)"
  by (simp add: occurrences_def matching_parts_def length_filter_conv_card conj_commute)

lemma distinct_matches_remdups: "distinct_matches K sk = length (remdups (matching_parts K sk))"
proof -
  have "{uk \<in> set K. is_substr uk sk \<and> 2 \<le> length uk} = set (matching_parts K sk)"
    by (auto simp: matching_parts_def)
  then show ?thesis by (simp add: distinct_matches_def length_remdups_card_conv)
qed

lemma distinct_matches_le: "distinct_matches K sk \<le> occurrences K sk"
  by (simp add: occurrences_length distinct_matches_remdups)

lemma distinct_matches_eq: "distinct K \<Longrightarrow> distinct_matches K sk = occurrences K sk"
  by (simp add: occurrences_length distinct_matches_remdups matching_parts_def)

lemma set_matching_parts:
  "set (matching_parts K sk) = {uk \<in> set K. is_substr uk sk \<and> 2 \<le> length uk}"
  by (auto simp: matching_parts_def)

lemma compound_step_eq:
  "compound_step w K (M, s) sk =
    (if 2 \<le> occurrences K sk
     then (M \<union> {uk \<in> set K. is_substr uk sk \<and> 2 \<le> length uk},
           s + real (occurrences K sk) * compound_match w)
     else (M, s))"
  by (simp add: compound_step_def occurrences_length set_matching_parts)

lemma compound_pass_eq:
  "compound_pass w K sks (M, s) =
    (M \<union> {uk \<in> set K. \<exists>sk\<in>set sks. 2 \<le> occurrences K sk \<and> is_substr uk sk \<and> 2 \<le> length uk},
     s + (\<Sum>sk\<leftarrow>sks. if 2 \<le> occurrences K sk
                       then real (occurrences K sk) * compound_match w else 0))"
proof (induction sks arbitrary: M s)
  case Nil
  show ?case by (simp add: compound_pass_def)
next
  case (Cons sk sks)
  have "compound_pass w K (sk # sks) (M, s) = compound_pass w K sks (compound_step w K (M, s) sk)"
    by (simp add: compound_pass_def)
  also have "\<dots> = (M \<union> {uk \<in> set K. \<exists>sk\<in>set (sk # sks). 2 \<le> occurrences K sk \<and> is_substr uk sk \<and> 2 \<le> length uk},
     s + (\<Sum>sk\<leftarrow>sk # sks. if 2 \<le> occurrences K sk
                       then real (occurrences K sk) * compound_match w else 0))"
  proof (cases "2 \<le> occurrences K sk")
    case True
    then show ?thesis by (auto simp: compound_step_eq Cons.IH)
  next
    case False
    then show ?thesis by (auto simp: compound_step_eq Cons.IH)
  qed
  finally show ?case .
qed

lemma substr_ab_abc: "is_substr (py ''ab'') (py ''abc'')"
  by (simp add: py_def startswith_def)

text \<open>
  Claim C6, as amended. In the compound pass, for every skill keyword the bonus
  \<open>count * compound_match\<close> is added if and only if at least 2 positions of the query
  keyword list hold a keyword of length at least 2 that is a substring of the skill
  keyword, and \<open>count\<close> is the number of those positions: a query keyword that appears
  twice counts twice. The number of distinct matching keywords is never larger, and it
  is the same number when the query keywords are pairwise distinct.
\<close>

theorem C6_compound_bonus:
  "compound_step weights user_keywords (matched, score) skill_kw =
     (if 2 \<le> occurrences user_keywords skill_kw
      then (matched \<union> {uk \<in> set user_keywords. is_substr uk skill_kw \<and> 2 \<le> length uk},
            score + real (occurrences user_keywords skill_kw) * compound_match weights)
      else (matched, score))
   \<and> snd (compound_pass weights user_keywords skill_kws (matched, score)) =
       score + (\<Sum>sk\<leftarrow>skill_kws. if 2 \<le> occurrences user_keywords sk
                  then real (occurrences user_keywords sk) * compound_match weights else 0)
   \<and> distinct_matches user_keywords skill_kw \<le> occurrences user_keywords skill_kw
   \<and> (distinct user_keywords \<longrightarrow>
        occurrences user_keywords skill_kw = distinct_matches user_keywords skill_kw)"
  by (simp add: compound_step_eq compound_pass_eq distinct_matches_le distinct_matches_eq)

theorem C6_compound_bonus_witness:
  "distinct [py ''bug'', py ''fix'']
   \<and> occurrences [py ''bug'', py ''fix''] (py ''bug fix'') = 2
   \<and> distinct_matches [py ''bug'', py ''fix''] (py ''bug fix'') = 2
   \<and> compound_step (keyword_weights DEFAULT_CONFIG) [py ''bug'', py ''fix''] ({}, 0) (py ''bug fix'')
       = ({py ''bug'', py ''fix''}, 5)"
proof -
  have d: "distinct [py ''bug'', py ''fix'']" by (simp add: py_def)
  have o: "occurrences [py ''bug'', py ''fix''] (py ''bug fix'') = 2"
    by (simp add: occurrences_length matching_parts_def py_def startswith_def)
  have w: "compound_match (keyword_weights DEFAULT_CONFIG) = 2.5" by (simp add: DEFAULT_CONFIG_def)
  have s: "{uk \<in> set [py ''bug'', py ''fix'']. is_substr uk (py ''bug fix'') \<and> 2 \<le> length uk}
      = {py ''bug'', py ''fix''}"
    by (auto simp: py_def startswith_def)
  from C6_compound_bonus [of "keyword_weights DEFAULT_CONFIG" "[py ''bug'', py ''fix'']" "{}" 0
      "py ''bug fix''" "[]"] d o w s
  show ?thesis by simp
qed

text \<open>
  Claim C6 as stated fails when a query keyword is repeated: for the query keywords
  \<open>[ab, ab]\<close> and the skill keyword \<open>abc\<close> one distinct query keyword matches, and the
  bonus \<open>2 * 2.5\<close> is added all the same.
\<close>

theorem C6_counterexample:
  "distinct_matches [py ''ab'', py ''ab''] (py ''abc'') = 1
   \<and> compound_pass (keyword_weights DEFAULT_CONFIG) [py ''ab'', py ''ab''] [py ''abc''] ({}, 0)
       = ({py ''ab''}, 5)"
  by (simp add: distinct_matches_remdups matching_parts_def substr_ab_abc compound_pass_def
      compound_step_def DEFAULT_CONFIG_def) (simp add: py_def)

section \<open>Monotonicity of the raw score\<close>

subsection \<open>The per-keyword pass in closed form\<close>


lemma individual_step_eq:
  "individual_step w sks ucs ds tgs (M, s) u =
    (if u \<in> M then (M, s)
     else if kw_hit sks ucs ds tgs u then (insert u M, s + kw_weight w sks ucs ds tgs u)
     else (M, s))"
  by (simp add: individual_step_def kw_hit_def kw_weight_def)

lemma kw_weight_miss: "\<not> kw_hit sks ucs ds tgs u \<Longrightarrow> kw_weight w sks ucs ds tgs u = 0"
  by (simp add: kw_hit_def kw_weight_def)

lemma individual_pass_eq:
  "individual_pass w sks ucs ds tgs K (M, s) =
    (M \<union> {u \<in> set K. kw_hit sks ucs ds tgs u},
     s + sum (kw_weight w sks ucs ds tgs) (set K - M))"
proof (induction K arbitrary: M s)
  case Nil
  show ?case by (simp add: individual_pass_def)
next
  case (Cons u K)
  have unfold: "individual_pass w sks ucs ds tgs (u # K) (M, s) =
      individual_pass w sks ucs ds tgs K (individual_step w sks ucs ds tgs (M, s) u)"
    by (simp add: individual_pass_def)
  show ?case
  proof (cases "u \<in> M")
    case True
    then have "set (u # K) - M = set K - M" by auto
    moreover from True have "M \<union> {x \<in> set (u # K). kw_hit sks ucs ds tgs x}
        = M \<union> {x \<in> set K. kw_hit sks ucs ds tgs x}" by auto
    ultimately show ?thesis using True by (simp add: unfold individual_step_eq Cons.IH)
  next
    case False
    show ?thesis
    proof (cases "kw_hit sks ucs ds tgs u")
      case True
      have fin: "finite (set K - insert u M)" by simp
      have "set (u # K) - M = insert u (set K - insert u M)" using False by auto
      then have "sum (kw_weight w sks ucs ds tgs) (set (u # K) - M)
          = kw_weight w sks ucs ds tgs u + sum (kw_weight w sks ucs ds tgs) (set K - insert u M)"
        using fin by simp
      moreover from True have "insert u M \<union> {x \<in> set K. kw_hit sks ucs ds tgs x}
        = M \<union> {x \<in> set (u # K). kw_hit sks ucs ds tgs x}" by auto
      ultimately show ?thesis using False True
        by (simp add: unfold individual_step_eq Cons.IH)
    next
      case miss: False
      have z: "kw_weight w sks ucs ds tgs u = 0" using miss by (rule kw_weight_miss)
      have "sum (kw_weight w sks ucs ds tgs) (set (u # K) - M)
          = sum (kw_weight w sks ucs ds tgs) (set K - M)"
      proof (cases "u \<in> set K")
        case True
        then have "set (u # K) - M = set K - M" by auto
        then show ?thesis by simp
      next
        case notin: False
        have "set (u # K) - M = insert u (set K - M)" using False by auto
        moreover have "u \<notin> set K - M" using notin by simp
        ultimately show ?thesis using z by simp
      qed
      moreover from miss have "M \<union> {x \<in> set (u # K). kw_hit sks ucs ds tgs x}
        = M \<union> {x \<in> set K. kw_hit sks ucs ds tgs x}" by auto
      ultimately show ?thesis using False miss
        by (simp add: unfold individual_step_eq Cons.IH)
    qed
  qed
qed

subsection \<open>The compound pass on a query with one more keyword\<close>


lemma matching_parts_append:
  "matching_parts (K @ [k]) sk =
     matching_parts K sk @ (if is_substr k sk \<and> 2 \<le> length k then [k] else [])"
  by (simp add: matching_parts_def)

lemma set_matching_parts_sub: "set (matching_parts K sk) \<subseteq> set K"
  by (auto simp: matching_parts_def)

lemma card_bound_mono:
  assumes "A \<subseteq> B" and "finite B" and "x \<ge> 3 * real (card B) + 2"
  shows "x \<ge> 3 * real (card A) + 2"
proof -
  from assms(1,2) have "card A \<le> card B" by (rule card_mono[rotated])
  then have "real (card A) \<le> real (card B)" by simp
  with assms(3) show ?thesis by linarith
qed

lemma compound_related_step:
  assumes rel: "compound_related k K (M, s) (M', s')"
    and nk: "k \<notin> set K"
    and cw: "compound_match w = 5 / 2"
  shows "compound_related k K (compound_step w K (M, s) sk) (compound_step w (K @ [k]) (M', s') sk)"
proof -
  let ?mp = "matching_parts K sk"
  from rel have sub: "M \<subseteq> M'" and up: "M' \<subseteq> M \<union> insert k (set K)" and kM: "k \<notin> M"
    and same: "k \<notin> M' \<Longrightarrow> M' = M \<and> s' = s"
    and gain: "k \<in> M' \<Longrightarrow> s' - s \<ge> 3 * real (card ((M' - M) - {k})) + 2"
    by (auto simp: compound_related_def)
  have mpK: "set ?mp \<subseteq> set K" by (rule set_matching_parts_sub)
  with nk have kmp: "k \<notin> set ?mp" by auto
  have finD: "finite ((M' - M) - {k})"
  proof (rule finite_subset)
    show "(M' - M) - {k} \<subseteq> set K" using up by auto
  qed simp
  show ?thesis
  proof (cases "is_substr k sk \<and> 2 \<le> length k")
    case False
    then have mp': "matching_parts (K @ [k]) sk = ?mp" by (simp add: matching_parts_append)
    show ?thesis
    proof (cases "2 \<le> length ?mp")
      case True
      have s1: "compound_step w K (M, s) sk = (M \<union> set ?mp, s + real (length ?mp) * compound_match w)"
        using True by (simp add: compound_step_def)
      have s2: "compound_step w (K @ [k]) (M', s') sk
          = (M' \<union> set ?mp, s' + real (length ?mp) * compound_match w)"
        using True by (simp add: compound_step_def mp')
      have a: "M \<union> set ?mp \<subseteq> M' \<union> set ?mp" using sub by auto
      have b: "M' \<union> set ?mp \<subseteq> (M \<union> set ?mp) \<union> insert k (set K)" using up mpK by auto
      have c: "k \<notin> M \<union> set ?mp" using kM kmp by simp
      have d: "M' \<union> set ?mp = M \<union> set ?mp \<and> s' + real (length ?mp) * compound_match w
            = s + real (length ?mp) * compound_match w" if "k \<notin> M' \<union> set ?mp"
        using that same by simp
      have e: "(s' + real (length ?mp) * compound_match w) - (s + real (length ?mp) * compound_match w)
            \<ge> 3 * real (card (((M' \<union> set ?mp) - (M \<union> set ?mp)) - {k})) + 2"
        if "k \<in> M' \<union> set ?mp"
      proof -
        from that kmp have "k \<in> M'" by simp
        from gain[OF this] have g: "s' - s \<ge> 3 * real (card ((M' - M) - {k})) + 2" .
        have "((M' \<union> set ?mp) - (M \<union> set ?mp)) - {k} \<subseteq> (M' - M) - {k}" by auto
        from card_bound_mono[OF this finD g] show ?thesis by simp
      qed
      show ?thesis unfolding s1 s2 compound_related_def using a b c d e by simp
    next
      case False
      then have "compound_step w K (M, s) sk = (M, s)"
        and "compound_step w (K @ [k]) (M', s') sk = (M', s')"
        by (simp_all add: compound_step_def mp')
      with rel show ?thesis by simp
    qed
  next
    case km: True
    then have mp': "matching_parts (K @ [k]) sk = ?mp @ [k]" by (simp add: matching_parts_append)
    consider (zero) "length ?mp = 0" | (one) "length ?mp = 1" | (more) "2 \<le> length ?mp"
      by linarith
    then show ?thesis
    proof cases
      case zero
      then have "compound_step w K (M, s) sk = (M, s)"
        and "compound_step w (K @ [k]) (M', s') sk = (M', s')"
        by (simp_all add: compound_step_def mp')
      with rel show ?thesis by simp
    next
      case one
      then obtain u where u: "?mp = [u]" by (cases ?mp) auto
      with mpK have uK: "u \<in> set K" by simp
      have s1: "compound_step w K (M, s) sk = (M, s)" using one by (simp add: compound_step_def)
      have "compound_step w (K @ [k]) (M', s') sk = (M' \<union> {u, k}, s' + 2 * compound_match w)"
        using u by (simp add: compound_step_def mp')
      then have s2: "compound_step w (K @ [k]) (M', s') sk = (M' \<union> {u, k}, s' + 5)"
        unfolding cw by simp
      have a: "M \<subseteq> M' \<union> {u, k}" using sub by auto
      have b: "M' \<union> {u, k} \<subseteq> M \<union> insert k (set K)" using up uK by auto
      have e: "(s' + 5) - s \<ge> 3 * real (card (((M' \<union> {u, k}) - M) - {k})) + 2"
      proof (cases "k \<in> M'")
        case True
        from gain[OF this] have g: "s' - s \<ge> 3 * real (card ((M' - M) - {k})) + 2" .
        have "((M' \<union> {u, k}) - M) - {k} \<subseteq> insert u ((M' - M) - {k})" by auto
        moreover have "finite (insert u ((M' - M) - {k}))" using finD by simp
        ultimately have "card (((M' \<union> {u, k}) - M) - {k}) \<le> card (insert u ((M' - M) - {k}))"
          by (rule card_mono[rotated])
        also have "\<dots> \<le> Suc (card ((M' - M) - {k}))" using finD by (simp add: card_insert_if)
        finally have "real (card (((M' \<union> {u, k}) - M) - {k})) \<le> real (card ((M' - M) - {k})) + 1"
          by simp
        with g show ?thesis by linarith
      next
        case False
        from same[OF this] have eq: "M' = M" "s' = s" by simp_all
        have "((M' \<union> {u, k}) - M) - {k} \<subseteq> {u}" using eq by auto
        then have "card (((M' \<union> {u, k}) - M) - {k}) \<le> card {u}"
          by (rule card_mono[rotated]) simp
        then have "real (card (((M' \<union> {u, k}) - M) - {k})) \<le> 1" by simp
        with eq show ?thesis by simp
      qed
      show ?thesis unfolding s1 s2 compound_related_def using a b kM e by simp
    next
      case more
      have "compound_step w K (M, s) sk = (M \<union> set ?mp, s + real (length ?mp) * compound_match w)"
        using more by (simp add: compound_step_def)
      then have s1: "compound_step w K (M, s) sk = (M \<union> set ?mp, s + real (length ?mp) * (5 / 2))"
        unfolding cw .
      have "compound_step w (K @ [k]) (M', s') sk
          = (M' \<union> set ?mp \<union> {k}, s' + (real (length ?mp) + 1) * compound_match w)"
        using more by (simp add: compound_step_def mp' Un_commute insert_commute add.commute)
      then have s2: "compound_step w (K @ [k]) (M', s') sk
          = (M' \<union> set ?mp \<union> {k}, s' + (real (length ?mp) + 1) * (5 / 2))"
        unfolding cw .
      have a: "M \<union> set ?mp \<subseteq> M' \<union> set ?mp \<union> {k}" using sub by auto
      have b: "M' \<union> set ?mp \<union> {k} \<subseteq> (M \<union> set ?mp) \<union> insert k (set K)" using up mpK by auto
      have c: "k \<notin> M \<union> set ?mp" using kM kmp by simp
      have e: "(s' + (real (length ?mp) + 1) * (5 / 2)) - (s + real (length ?mp) * (5 / 2))
            \<ge> 3 * real (card (((M' \<union> set ?mp \<union> {k}) - (M \<union> set ?mp)) - {k})) + 2"
      proof (cases "k \<in> M'")
        case True
        from gain[OF this] have g: "s' - s \<ge> 3 * real (card ((M' - M) - {k})) + 2" .
        have "((M' \<union> set ?mp \<union> {k}) - (M \<union> set ?mp)) - {k} \<subseteq> (M' - M) - {k}" by auto
        from card_bound_mono[OF this finD g]
        have "s' - s \<ge> 3 * real (card (((M' \<union> set ?mp \<union> {k}) - (M \<union> set ?mp)) - {k})) + 2" .
        moreover have "(s' + (real (length ?mp) + 1) * (5 / 2)) - (s + real (length ?mp) * (5 / 2))
            = s' - s + 5 / 2" by (simp add: field_simps)
        ultimately show ?thesis by linarith
      next
        case False
        from same[OF this] have eq: "M' = M" "s' = s" by simp_all
        have "((M' \<union> set ?mp \<union> {k}) - (M \<union> set ?mp)) - {k} = {}" using eq by auto
        then have "real (card (((M' \<union> set ?mp \<union> {k}) - (M \<union> set ?mp)) - {k})) = 0"
          by (simp only: card.empty of_nat_0)
        moreover have "(s' + (real (length ?mp) + 1) * (5 / 2)) - (s + real (length ?mp) * (5 / 2))
            = s' - s + 5 / 2" by (simp add: field_simps)
        ultimately show ?thesis using eq(2) by linarith
      qed
      show ?thesis unfolding s1 s2 compound_related_def using a b c e by simp
    qed
  qed
qed

lemma compound_related_pass:
  assumes "compound_related k K st st'" and "k \<notin> set K" and "compound_match w = 5 / 2"
  shows "compound_related k K (compound_pass w K sks st) (compound_pass w (K @ [k]) sks st')"
  using assms(1)
proof (induction sks arbitrary: st st')
  case Nil
  then show ?case by (simp add: compound_pass_def)
next
  case (Cons sk sks)
  obtain M s where st: "st = (M, s)" by (cases st)
  obtain M' s' where st': "st' = (M', s')" by (cases st')
  from Cons.prems have "compound_related k K (compound_step w K st sk) (compound_step w (K @ [k]) st' sk)"
    unfolding st st' by (rule compound_related_step) (rule assms)+
  from Cons.IH[OF this] show ?case by (simp add: compound_pass_def)
qed

subsection \<open>The bonuses and the whole score\<close>


lemma foldl_incr:
  fixes s :: real
  assumes "\<And>t x. t \<le> f t x"
  shows "s \<le> foldl f s xs"
proof (induction xs arbitrary: s)
  case Nil
  show ?case by simp
next
  case (Cons x xs)
  have "s \<le> f s x" by (rule assms)
  also have "\<dots> \<le> foldl f (f s x) xs" by (rule Cons.IH)
  finally show ?case by simp
qed

lemma foldl_strict_mono2:
  fixes s s' :: real
  assumes "\<And>t t' x. t < t' \<Longrightarrow> f t x < g t' x"
  shows "s < s' \<Longrightarrow> foldl f s xs < foldl g s' xs"
proof (induction xs arbitrary: s s')
  case Nil
  then show ?case by simp
next
  case (Cons x xs)
  from Cons.prems have "f s x < g s' x" by (rule assms)
  from Cons.IH[OF this] show ?case by simp
qed

lemma default_weights:
  "exact_match (keyword_weights DEFAULT_CONFIG) = 3"
  "compound_match (keyword_weights DEFAULT_CONFIG) = 5 / 2"
  "partial_match (keyword_weights DEFAULT_CONFIG) = 3 / 2"
  "tag_match (keyword_weights DEFAULT_CONFIG) = 2"
  "use_case_match (keyword_weights DEFAULT_CONFIG) = 5 / 2"
  by (simp_all add: DEFAULT_CONFIG_def)

lemma kw_weight_default_bounds:
  "0 \<le> kw_weight (keyword_weights DEFAULT_CONFIG) sks ucs ds tgs u"
  "kw_weight (keyword_weights DEFAULT_CONFIG) sks ucs ds tgs u \<le> 3"
  by (simp_all add: kw_weight_def default_weights)

lemma kw_weight_default_exact:
  "u \<in> set sks \<Longrightarrow> kw_weight (keyword_weights DEFAULT_CONFIG) sks ucs ds tgs u = 3"
  by (simp add: kw_weight_def default_weights)

lemma individual_after_related:
  assumes rel: "compound_related k K (M, s) (M', s')"
    and nk: "k \<notin> set K" and ks: "k \<in> set sks"
  shows "snd (individual_pass (keyword_weights DEFAULT_CONFIG) sks ucs ds tgs (K @ [k]) (M', s'))
      \<ge> snd (individual_pass (keyword_weights DEFAULT_CONFIG) sks ucs ds tgs K (M, s)) + 2"
proof -
  let ?f = "kw_weight (keyword_weights DEFAULT_CONFIG) sks ucs ds tgs"
  from rel have sub: "M \<subseteq> M'" and up: "M' \<subseteq> M \<union> insert k (set K)" and kM: "k \<notin> M"
    and same: "k \<notin> M' \<Longrightarrow> M' = M \<and> s' = s"
    and gain: "k \<in> M' \<Longrightarrow> s' - s \<ge> 3 * real (card ((M' - M) - {k})) + 2"
    by (auto simp: compound_related_def)
  have goal: "s' + sum ?f (set (K @ [k]) - M') \<ge> s + sum ?f (set K - M) + 2"
  proof (cases "k \<in> M'")
    case False
    from same[OF this] have eq: "M' = M" "s' = s" by simp_all
    have "set (K @ [k]) - M' = insert k (set K - M)" using eq kM by auto
    moreover have "k \<notin> set K - M" using nk by simp
    ultimately have "sum ?f (set (K @ [k]) - M') = ?f k + sum ?f (set K - M)" by simp
    with kw_weight_default_exact[OF ks, of ucs ds tgs] eq show ?thesis by simp
  next
    case True
    let ?A' = "set K - M'" and ?B = "(set K - M) \<inter> M'"
    have A': "set (K @ [k]) - M' = ?A'" using True by auto
    have split: "set K - M = ?A' \<union> ?B" using sub by auto
    have "sum ?f (?A' \<union> ?B) = sum ?f ?A' + sum ?f ?B"
      by (rule sum.union_disjoint) auto
    with split have sumA: "sum ?f (set K - M) = sum ?f ?A' + sum ?f ?B" by simp
    have "sum ?f ?B \<le> real (card ?B) * 3"
      by (rule sum_bounded_above) (rule kw_weight_default_bounds)
    moreover have "card ?B \<le> card ((M' - M) - {k})"
    proof (rule card_mono)
      show "finite ((M' - M) - {k})"
        by (rule finite_subset[of _ "set K"]) (use up in auto)
      show "?B \<subseteq> (M' - M) - {k}" using nk by auto
    qed
    then have "real (card ?B) \<le> real (card ((M' - M) - {k}))" by simp
    ultimately have "sum ?f ?B + 2 \<le> s' - s" using gain[OF True] by linarith
    with sumA show ?thesis unfolding A' by linarith
  qed
  then show ?thesis by (simp add: individual_pass_eq)
qed

lemma overlap_size_mono:
  assumes "set K \<subseteq> set K'"
  shows "overlap_size L K uc \<le> overlap_size L K' uc"
proof -
  have "set (filter (\<lambda>w. w \<in> set K) (alpha_words L uc))
      \<subseteq> set (filter (\<lambda>w. w \<in> set K') (alpha_words L uc))" using assms by auto
  then have "card (set (filter (\<lambda>w. w \<in> set K) (alpha_words L uc)))
      \<le> card (set (filter (\<lambda>w. w \<in> set K') (alpha_words L uc)))"
    by (rule card_mono[rotated]) simp
  then show ?thesis by (simp add: overlap_size_def length_remdups_card_conv)
qed

lemma use_case_pass_strict:
  assumes "set K \<subseteq> set K'" and "s < s'"
  shows "use_case_pass L skill K s < use_case_pass L skill K' s'"
  unfolding use_case_pass_def using assms(2)
proof (rule foldl_strict_mono2[rotated])
  fix t t' :: real and uc
  assume lt: "t < t'"
  from overlap_size_mono[OF assms(1), of L uc]
  have "real (overlap_size L K uc) \<le> real (overlap_size L K' uc)" by simp
  with lt show "use_case_step L K t uc < use_case_step L K' t' uc"
    by (auto simp: use_case_step_def)
qed

lemma stemming_inner_ge: "s \<le> stemming_inner ucs s u"
  unfolding stemming_inner_def by (rule foldl_incr) simp

lemma stemming_inner_strict: "s < s' \<Longrightarrow> stemming_inner ucs s u < stemming_inner ucs s' u"
  unfolding stemming_inner_def by (rule foldl_strict_mono2[rotated]) auto

lemma stemming_pass_strict:
  assumes "s < s'"
  shows "stemming_pass ucs K s < stemming_pass ucs (K @ [k]) s'"
proof -
  have "stemming_pass ucs K s < stemming_pass ucs K s'"
    unfolding stemming_pass_def using assms
    by (rule foldl_strict_mono2[rotated]) (rule stemming_inner_strict)
  also have "\<dots> \<le> stemming_inner ucs (stemming_pass ucs K s') k" by (rule stemming_inner_ge)
  also have "\<dots> = stemming_pass ucs (K @ [k]) s'" by (simp add: stemming_pass_def)
  finally show ?thesis .
qed

lemma score_state_strict:
  assumes nk: "k \<notin> set K" and ks: "k \<in> set (skill_keywords L skill)"
  shows "snd (score_state L (keyword_weights DEFAULT_CONFIG) K skill msg)
       < snd (score_state L (keyword_weights DEFAULT_CONFIG) (K @ [k]) skill msg)"
proof -
  let ?W = "keyword_weights DEFAULT_CONFIG"
  let ?b = "primary_pass L ?W skill msg (0.0 + intent_score L ?W skill msg)"
  let ?sks = "skill_keywords L skill"
  let ?c = "compound_pass ?W K ?sks ({}, ?b)" and ?c' = "compound_pass ?W (K @ [k]) ?sks ({}, ?b)"
  have "compound_related k K ({}, ?b) ({}, ?b)" by (simp add: compound_related_def)
  then have "compound_related k K ?c ?c'"
    using nk by (rule compound_related_pass) (rule default_weights)
  then have rel: "compound_related k K (fst ?c, snd ?c) (fst ?c', snd ?c')" by simp
  let ?i = "individual_pass ?W ?sks (use_case_keywords L skill) (desc_keywords L skill)
              (map (str_lower L) (tags skill)) K ?c"
  let ?i' = "individual_pass ?W ?sks (use_case_keywords L skill) (desc_keywords L skill)
              (map (str_lower L) (tags skill)) (K @ [k]) ?c'"
  from individual_after_related[OF rel nk ks]
  have "snd ?i + 2 \<le> snd ?i'" by simp
  then have "snd ?i < snd ?i'" by linarith
  then have "use_case_pass L skill K (snd ?i) < use_case_pass L skill (K @ [k]) (snd ?i')"
    by (rule use_case_pass_strict[rotated]) auto
  then have "stemming_pass (use_case_keywords L skill) K (use_case_pass L skill K (snd ?i))
      < stemming_pass (use_case_keywords L skill) (K @ [k])
          (use_case_pass L skill (K @ [k]) (snd ?i'))"
    by (rule stemming_pass_strict)
  then show ?thesis by (simp add: score_state_def Let_def)
qed

lemma primary_pass_ge: "0 \<le> s \<Longrightarrow> 0 \<le> primary_pass L (keyword_weights DEFAULT_CONFIG) skill msg s"
proof -
  assume "0 \<le> s"
  also have "s \<le> primary_pass L (keyword_weights DEFAULT_CONFIG) skill msg s"
    unfolding primary_pass_def
    by (auto intro!: foldl_incr simp: primary_step_def default_weights)
  finally show ?thesis .
qed

lemma score_state_empty_nonneg:
  "0 \<le> snd (score_state L (keyword_weights DEFAULT_CONFIG) [] skill msg)"
proof -
  have c: "compound_pass w [] sks st = st" for w sks st
    unfolding compound_pass_def
    by (induction sks arbitrary: st) (auto simp: compound_step_def matching_parts_def)
  have u0: "foldl (use_case_step L []) s xs = s" for s xs
    by (induction xs arbitrary: s) (auto simp: use_case_step_def overlap_size_def)
  have u: "use_case_pass L skill [] s = s" for s
    unfolding use_case_pass_def by (rule u0)
  have "0 \<le> (0.0::real) + intent_score L (keyword_weights DEFAULT_CONFIG) skill msg"
    by (simp add: intent_score_def default_weights)
  then have "0 \<le> primary_pass L (keyword_weights DEFAULT_CONFIG) skill msg
      (0.0 + intent_score L (keyword_weights DEFAULT_CONFIG) skill msg)"
    by (rule primary_pass_ge)
  then show ?thesis
    by (simp add: score_state_def Let_def c u individual_pass_def stemming_pass_def)
qed

lemma fst_individual_pass:
  "fst (individual_pass w sks ucs ds tgs K st) = fst st \<union> {u \<in> set K. kw_hit sks ucs ds tgs u}"
  by (cases st) (simp add: individual_pass_eq)

lemma consumed_member:
  assumes "k \<in> set K" and "k \<in> set (skill_keywords L skill)"
  shows "k \<in> consumed L w K skill msg"
proof -
  from assms(1) have ne: "K \<noteq> []" by auto
  from assms(2) have "kw_hit (skill_keywords L skill) (use_case_keywords L skill)
      (desc_keywords L skill) (map (str_lower L) (tags skill)) k"
    by (simp add: kw_hit_def)
  with assms(1) show ?thesis
    using ne by (simp add: consumed_def score_state_def Let_def fst_individual_pass)
qed

lemma scenario_A_skill_keywords:
  "skill_keywords ascii_lib scenario_A_document_record = [py ''debug'', py ''error'']"
  by (simp add: skill_keywords_def flat_keywords_def desc_keywords_def
      scenario_A_document_record_def ascii_defs py_def)

lemma scenario_A_other_keywords:
  "use_case_keywords ascii_lib scenario_A_document_record = []"
  "desc_keywords ascii_lib scenario_A_document_record = []"
  "tags scenario_A_document_record = []"
  by (simp_all add: use_case_keywords_def desc_keywords_def scenario_A_document_record_def)

lemma scenario_A_consumed_payment:
  "consumed ascii_lib (keyword_weights DEFAULT_CONFIG) [py ''payment'']
     scenario_A_document_record [] = {}"
proof -
  have c: "compound_pass w [py ''payment''] [py ''debug'', py ''error''] st = st" for w st
    by (cases st) (simp add: compound_pass_def compound_step_def matching_parts_def)
  have h: "\<not> kw_hit [py ''debug'', py ''error''] [] [] [] (py ''payment'')"
    by (simp add: kw_hit_def fuzzy_match_def startswith_def py_def)
  show ?thesis
    using h by (simp add: consumed_def score_state_def Let_def scenario_A_skill_keywords
        scenario_A_other_keywords c fst_individual_pass)
qed

text \<open>
  Claim C9. Under the default keyword weights, for every query keyword list \<open>K\<close>, every
  skill record and every keyword \<open>k\<close> of the record's skill-keyword list that is not
  consumed when \<open>K\<close> is scored against the record, the raw score of \<open>K\<close> with \<open>k\<close>
  appended is strictly greater than the raw score of \<open>K\<close>, for the same message and the
  same library functions.
\<close>

theorem C9_exact_keyword_increases_raw_score:
  assumes "k \<in> set (skill_keywords L skill)"
    and "k \<notin> consumed L (keyword_weights DEFAULT_CONFIG) K skill original_message"
  shows "raw_score L (keyword_weights DEFAULT_CONFIG) K skill original_message
       < raw_score L (keyword_weights DEFAULT_CONFIG) (K @ [k]) skill original_message"
proof -
  from assms have nk: "k \<notin> set K" using consumed_member by blast
  from score_state_strict[OF nk assms(1)]
  have lt: "snd (score_state L (keyword_weights DEFAULT_CONFIG) K skill original_message)
       < snd (score_state L (keyword_weights DEFAULT_CONFIG) (K @ [k]) skill original_message)" .
  show ?thesis
  proof (cases "K = []")
    case True
    with lt score_state_empty_nonneg[of L skill original_message] show ?thesis
      by (simp add: raw_score_def)
  next
    case False
    with lt show ?thesis by (simp add: raw_score_def)
  qed
qed

theorem C9_exact_keyword_increases_raw_score_witness:
  "py ''debug'' \<in> set (skill_keywords ascii_lib scenario_A_document_record)
   \<and> py ''debug'' \<notin> consumed ascii_lib (keyword_weights DEFAULT_CONFIG) [py ''payment'']
        scenario_A_document_record []
   \<and> raw_score ascii_lib (keyword_weights DEFAULT_CONFIG) [py ''payment'']
        scenario_A_document_record []
     < raw_score ascii_lib (keyword_weights DEFAULT_CONFIG) ([py ''payment''] @ [py ''debug''])
        scenario_A_document_record []"
proof -
  have h1: "py ''debug'' \<in> set (skill_keywords ascii_lib scenario_A_document_record)"
    by (simp add: scenario_A_skill_keywords)
  have h2: "py ''debug'' \<notin> consumed ascii_lib (keyword_weights DEFAULT_CONFIG) [py ''payment'']
        scenario_A_document_record []"
    by (simp add: scenario_A_consumed_payment)
  from C9_exact_keyword_increases_raw_score [OF h1 h2] h1 h2 show ?thesis by simp
qed

section \<open>Properties of the rate limiter\<close>


lemma prune_prune: "a \<le> b \<Longrightarrow> prune b (prune a ts) = prune b ts"
  by (induction ts) (auto simp: prune_def)

lemma length_prune_le: "length (prune now ts) \<le> length ts"
  by (simp add: prune_def)

lemma enforce_min_delay_props:
  assumes lag: "\<And>n. 0 \<le> lag n"
    and e: "enforce_min_delay lag rl w = (now, w1)"
  shows "clock w \<le> now" and "now = clock w1" and "min_delay rl \<le> now - last_request_time rl"
proof -
  let ?now0 = "clock w + lag (ticks w)"
  let ?tsl = "?now0 - last_request_time rl"
  have l: "0 \<le> lag (ticks w)" "0 \<le> lag (Suc (ticks w))" "0 \<le> lag (Suc (Suc (ticks w)))"
    by (rule lag)+
  have "clock w \<le> now \<and> now = clock w1 \<and> min_delay rl \<le> now - last_request_time rl"
  proof (cases "?tsl < min_delay rl")
    case True
    with e have "now = ?now0 + (min_delay rl - ?tsl) + lag (Suc (ticks w)) + lag (Suc (Suc (ticks w)))"
      and "clock w1 = now"
      by (auto simp: enforce_min_delay_def time_time_def time_sleep_def Let_def)
    with True l show ?thesis by auto
  next
    case False
    with e have "now = ?now0" and "clock w1 = now"
      by (auto simp: enforce_min_delay_def time_time_def Let_def)
    with False l show ?thesis by auto
  qed
  then show "clock w \<le> now" and "now = clock w1"
    and "min_delay rl \<le> now - last_request_time rl" by simp_all
qed

lemma enforce_rpm_cases:
  assumes lag: "\<And>n. 0 \<le> lag n"
    and young: "\<And>t. t \<in> set (request_times rl) \<Longrightarrow> now - t < 60"
    and clk: "now = clock w"
  shows "(request_times rl = [] \<and> rpm rl \<le> 0
          \<and> enforce_rpm lag rl now w = (Inl IndexError, rl, w))
       \<or> (int (length (request_times rl)) < rpm rl
          \<and> enforce_rpm lag rl now w = (Inr now, rl, w))
       \<or> (\<exists>now2 w2 oldest later. request_times rl = oldest # later \<and> now \<le> now2
          \<and> now2 = clock w2 \<and> oldest + 60 \<le> now2
          \<and> enforce_rpm lag rl now w =
               (Inr now2, rl\<lparr>request_times := prune now2 (oldest # later)\<rparr>, w2))"
proof (cases "int (length (request_times rl)) \<ge> rpm rl")
  case False
  then have "enforce_rpm lag rl now w = (Inr now, rl, w)" by (simp add: enforce_rpm_def)
  with False show ?thesis by simp
next
  case True
  show ?thesis
  proof (cases "request_times rl")
    case Nil
    with True have "rpm rl \<le> 0" by simp
    moreover have "enforce_rpm lag rl now w = (Inl IndexError, rl, w)"
      using True Nil by (simp add: enforce_rpm_def)
    ultimately show ?thesis using Nil by simp
  next
    case (Cons oldest later)
    then have y: "now - oldest < 60" using young by simp
    let ?wait = "60 - (now - oldest) + 0.1"
    obtain now2 w2 where p: "time_time lag (time_sleep lag ?wait w) = (now2, w2)"
      by (cases "time_time lag (time_sleep lag ?wait w)")
    then have n2: "now2 = now + ?wait + lag (ticks w) + lag (Suc (ticks w))" and c2: "now2 = clock w2"
      by (auto simp: time_time_def time_sleep_def Let_def clk)
    have l: "0 \<le> lag (ticks w)" "0 \<le> lag (Suc (ticks w))" by (rule lag)+
    have a: "now \<le> now2" using n2 y l by linarith
    have b: "oldest + 60 \<le> now2" using n2 l by linarith
    have "enforce_rpm lag rl now w = (Inr now2, rl\<lparr>request_times := prune now2 (oldest # later)\<rparr>, w2)"
      using True Cons y p by (simp add: enforce_rpm_def Let_def)
    with Cons a c2 b show ?thesis by blast
  qed
qed

lemma prune_snoc: "prune now (h @ [now]) = prune now h @ [now]"
  by (simp add: prune_def)

lemma length_filter_mono:
  "(\<And>x. x \<in> set xs \<Longrightarrow> P x \<Longrightarrow> Q x) \<Longrightarrow> length (filter P xs) \<le> length (filter Q xs)"
  by (induction xs) auto

lemma in_window_snoc_le:
  "length (in_window T (h @ [now])) \<le> max (length (in_window T h)) (Suc (length (prune now h)))"
proof (cases "T - 60 < now \<and> now \<le> T")
  case False
  then show ?thesis by (auto simp: in_window_def)
next
  case True
  have "length (filter (\<lambda>t. T - 60 < t \<and> t \<le> T) h) \<le> length (filter (\<lambda>t. now - t < 60) h)"
    by (rule length_filter_mono) (use True in auto)
  with True show ?thesis by (simp add: in_window_def prune_def)
qed

text \<open>A call either raises on a limiter that has recorded nothing, or records a time.\<close>

lemma wait_if_needed_spec:
  assumes lag: "\<And>n. 0 \<le> lag n"
    and inv: "limiter_inv rl w h"
    and call: "wait_if_needed lag (rl, w) = (res, rl', w')"
  shows "(res = Inl IndexError \<and> rpm rl \<le> 0 \<and> h = [] \<and> rl' = rl\<lparr>request_times := []\<rparr>
            \<and> clock w \<le> clock w')
       \<or> (\<exists>t. res = Inr t \<and> clock w \<le> t \<and> t = clock w'
            \<and> min_delay rl \<le> t - last_request_time rl
            \<and> int (length (prune t h)) < rpm rl
            \<and> rl' = record_request t (rl\<lparr>request_times := prune t h\<rparr>))"
proof -
  obtain now w1 where e: "enforce_min_delay lag rl w = (now, w1)"
    by (cases "enforce_min_delay lag rl w")
  note p = enforce_min_delay_props[OF lag e]
  from inv[unfolded limiter_inv_def]
  have rt: "request_times rl = (if h = [] then [] else prune (last h) h)"
    and below: "\<forall>t\<in>set h. t \<le> clock w" and dead: "rpm rl \<le> 0 \<longrightarrow> h = []"
    and len: "int (length (request_times rl)) \<le> max 0 (rpm rl)"
    by blast+
  have pr: "prune now (request_times rl) = prune now h"
  proof (cases "h = []")
    case True
    then show ?thesis by (simp add: rt prune_def)
  next
    case False
    then have "last h \<in> set h" by simp
    with below p(1) have "last h \<le> now" by fastforce
    with False show ?thesis by (simp add: rt prune_prune)
  qed
  let ?rl1 = "rl\<lparr>request_times := prune now h\<rparr>"
  have call': "wait_if_needed lag (rl, w) =
      (case enforce_rpm lag ?rl1 now w1 of
         (Inl e, rl2, w2) \<Rightarrow> (Inl e, rl2, w2)
       | (Inr now2, rl2, w2) \<Rightarrow> (Inr now2, record_request now2 rl2, w2))"
    by (simp add: wait_if_needed_def e pr)
  have young: "\<And>t. t \<in> set (request_times ?rl1) \<Longrightarrow> now - t < 60" by (simp add: prune_def)
  from enforce_rpm_cases[of lag ?rl1 now w1, OF lag young p(2)]
  consider (raised) "request_times ?rl1 = []" "rpm ?rl1 \<le> 0"
      "enforce_rpm lag ?rl1 now w1 = (Inl IndexError, ?rl1, w1)"
    | (direct) "int (length (request_times ?rl1)) < rpm ?rl1"
      "enforce_rpm lag ?rl1 now w1 = (Inr now, ?rl1, w1)"
    | (waited) now2 w2 oldest later where "request_times ?rl1 = oldest # later" "now \<le> now2"
      "now2 = clock w2" "oldest + 60 \<le> now2"
      "enforce_rpm lag ?rl1 now w1 =
         (Inr now2, ?rl1\<lparr>request_times := prune now2 (oldest # later)\<rparr>, w2)"
    by blast
  then show ?thesis
  proof cases
    case raised
    from raised(2) dead have "h = []" by simp
    moreover from raised(3) call call' have "res = Inl IndexError" "rl' = ?rl1" "w' = w1" by simp_all
    moreover from raised(1) have "?rl1 = rl\<lparr>request_times := []\<rparr>" by simp
    ultimately show ?thesis using raised(2) p by simp
  next
    case direct
    from direct(2) call call' have "res = Inr now" "rl' = record_request now ?rl1" "w' = w1"
      by simp_all
    with direct(1) p show ?thesis by simp
  next
    case (waited now2 w2 oldest later)
    from waited(5) call call'
    have r: "res = Inr now2" "rl' = record_request now2 (?rl1\<lparr>request_times := prune now2 (oldest # later)\<rparr>)"
      "w' = w2" by simp_all
    from waited(1) have ol: "prune now h = oldest # later" by simp
    then have p2: "prune now2 (oldest # later) = prune now2 h"
      using prune_prune[OF waited(2), of h] by simp
    have "h \<noteq> []" using ol by (auto simp: prune_def)
    with dead have pos: "1 \<le> rpm rl" by auto
    from waited(4) have "prune now2 (oldest # later) = prune now2 later" by (simp add: prune_def)
    then have "length (prune now2 h) \<le> length later" using p2 length_prune_le[of now2 later] by simp
    also have "length later < length (prune now h)" using ol by simp
    also have "length (prune now h) \<le> length (request_times rl)"
      using pr length_prune_le[of now "request_times rl"] by simp
    finally have "int (length (prune now2 h)) < int (length (request_times rl))" by simp
    with len pos have lt: "int (length (prune now2 h)) < rpm rl" by simp
    have "clock w \<le> now2" using p(1) waited(2) by simp
    moreover have "min_delay rl \<le> now2 - last_request_time rl" using p(3) waited(2) by simp
    ultimately show ?thesis using r p2 lt waited(3) by simp
  qed
qed

lemma limiter_inv_record:
  assumes inv: "limiter_inv rl w h"
    and t: "clock w \<le> t" "t = clock w'" "min_delay rl \<le> t - last_request_time rl"
      "int (length (prune t h)) < rpm rl"
  shows "limiter_inv (record_request t (rl\<lparr>request_times := prune t h\<rparr>)) w' (h @ [t])"
proof -
  from inv[unfolded limiter_inv_def]
  have lastt: "h \<noteq> [] \<longrightarrow> last_request_time rl = last h"
    and below: "\<forall>x\<in>set h. x \<le> clock w"
    and gaps: "\<forall>i. Suc i < length h \<longrightarrow> min_delay rl \<le> h ! Suc i - h ! i"
    and win: "\<forall>T. int (length (in_window T h)) \<le> max 0 (rpm rl)"
    by blast+
  from t(4) have pos: "1 \<le> rpm rl" by simp
  have g: "min_delay rl \<le> (h @ [t]) ! Suc i - (h @ [t]) ! i" if "Suc i < length (h @ [t])" for i
  proof (cases "Suc i < length h")
    case True
    with gaps show ?thesis by (simp add: nth_append)
  next
    case False
    with that have i: "Suc i = length h" by simp
    then have ne: "h \<noteq> []" by auto
    from i have "(h @ [t]) ! Suc i = t" by (simp add: nth_append)
    moreover from i have "i = length h - 1" by simp
    with i ne have "(h @ [t]) ! i = last h" by (simp add: nth_append last_conv_nth)
    ultimately show ?thesis using lastt ne t(3) by simp
  qed
  have w: "int (length (in_window T (h @ [t]))) \<le> max 0 (rpm rl)" for T
  proof -
    have "length (in_window T (h @ [t])) \<le> max (length (in_window T h)) (Suc (length (prune t h)))"
      by (rule in_window_snoc_le)
    then have "int (length (in_window T (h @ [t])))
        \<le> max (int (length (in_window T h))) (int (length (prune t h)) + 1)" by linarith
    with win[rule_format, of T] t(4) show ?thesis by linarith
  qed
  have b: "\<forall>x\<in>set (h @ [t]). x \<le> clock w'" using below t(1,2) by fastforce
  show ?thesis
    unfolding limiter_inv_def
    using pos t(4) g w b by (simp add: record_request_def prune_snoc)
qed

lemma wait_calls_inv:
  assumes lag: "\<And>n. 0 \<le> lag n"
    and run: "wait_calls lag n (RateLimiter_init r d, w0) = (h, rl, w)"
  shows "limiter_inv rl w h \<and> rpm rl = r \<and> min_delay rl = d \<and> (1 \<le> r \<longrightarrow> length h = n)"
  using run
proof (induction n arbitrary: h rl w)
  case 0
  then show ?case by (auto simp: limiter_inv_def RateLimiter_init_def in_window_def)
next
  case (Suc n)
  obtain h1 rl1 w1 where r1: "wait_calls lag n (RateLimiter_init r d, w0) = (h1, rl1, w1)"
    by (cases "wait_calls lag n (RateLimiter_init r d, w0)")
  from Suc.IH[OF r1] have inv: "limiter_inv rl1 w1 h1" and par: "rpm rl1 = r" "min_delay rl1 = d"
    and cnt: "1 \<le> r \<longrightarrow> length h1 = n" by simp_all
  obtain res rl2 w2 where c: "wait_if_needed lag (rl1, w1) = (res, rl2, w2)"
    by (cases "wait_if_needed lag (rl1, w1)")
  from wait_if_needed_spec[OF lag inv c] show ?case
  proof
    assume a: "res = Inl IndexError \<and> rpm rl1 \<le> 0 \<and> h1 = [] \<and> rl2 = rl1\<lparr>request_times := []\<rparr>
        \<and> clock w1 \<le> clock w2"
    with Suc.prems r1 c have "h = h1" "rl = rl2" "w = w2" by simp_all
    moreover from a inv have "limiter_inv rl2 w2 h1"
      by (simp add: limiter_inv_def in_window_def)
    ultimately show ?thesis using a par by simp
  next
    assume "\<exists>t. res = Inr t \<and> clock w1 \<le> t \<and> t = clock w2
            \<and> min_delay rl1 \<le> t - last_request_time rl1
            \<and> int (length (prune t h1)) < rpm rl1
            \<and> rl2 = record_request t (rl1\<lparr>request_times := prune t h1\<rparr>)"
    then obtain t where t: "res = Inr t" "clock w1 \<le> t" "t = clock w2"
      "min_delay rl1 \<le> t - last_request_time rl1" "int (length (prune t h1)) < rpm rl1"
      "rl2 = record_request t (rl1\<lparr>request_times := prune t h1\<rparr>)" by blast
    from Suc.prems r1 c t(1) have "h = h1 @ [t]" "rl = rl2" "w = w2" by simp_all
    moreover from limiter_inv_record[OF inv t(2-5)] t(6) have "limiter_inv rl2 w2 (h1 @ [t])"
      by simp
    ultimately show ?thesis using par cnt t(6) by (simp add: record_request_def)
  qed
qed


lemma two_calls:
  "fst (wait_calls (\<lambda>n. 0) (Suc (Suc 0)) (RateLimiter_init 2 (1 / 2), \<lparr>clock = 100, ticks = 0\<rparr>))
     = [100, 201 / 2]"
  by (simp add: wait_if_needed_def enforce_min_delay_def enforce_rpm_def time_time_def
      time_sleep_def RateLimiter_init_def record_request_def prune_def Let_def)

text \<open>
  Claim C4. Take any number of \<open>wait_if_needed\<close> calls on one new limiter with the
  parameters \<open>r\<close> (requests per minute) and \<open>d\<close> (minimum delay), on a clock that never
  runs backwards and with sleeps that last at least as long as requested. Then two
  consecutive recorded timestamps are never less than \<open>d\<close> apart, and for a cap \<open>r\<close> that
  is not negative no window of 60 seconds (the times after \<open>T - 60\<close> up to \<open>T\<close>) holds more
  than \<open>r\<close> recorded timestamps. With a cap of at least 1 every call records its
  timestamp.
\<close>

theorem C4_rate_limiter_invariant:
  assumes "\<forall>n. 0 \<le> lag n"
    and "wait_calls lag n (RateLimiter_init r d, w0) = (recorded, st)"
  shows "(\<forall>i. Suc i < length recorded \<longrightarrow> d \<le> recorded ! Suc i - recorded ! i)
     \<and> (0 \<le> r \<longrightarrow> (\<forall>T. int (length (in_window T recorded)) \<le> r))
     \<and> (1 \<le> r \<longrightarrow> length recorded = n)"
proof -
  obtain rl w where st: "st = (rl, w)" by (cases st)
  from assms(1) have lag: "\<And>n. 0 \<le> lag n" by simp
  from wait_calls_inv[OF lag assms(2)[unfolded st]]
  have inv: "limiter_inv rl w recorded" and par: "rpm rl = r" "min_delay rl = d"
    and cnt: "1 \<le> r \<longrightarrow> length recorded = n" by simp_all
  from inv par have "\<forall>i. Suc i < length recorded \<longrightarrow> d \<le> recorded ! Suc i - recorded ! i"
    by (simp add: limiter_inv_def)
  moreover from inv par have "\<forall>T. int (length (in_window T recorded)) \<le> max 0 r"
    by (simp add: limiter_inv_def)
  ultimately show ?thesis using cnt by auto
qed

theorem C4_rate_limiter_invariant_witness:
  "fst (wait_calls (\<lambda>n. 0) (Suc (Suc 0)) (RateLimiter_init 2 (1 / 2), \<lparr>clock = 100, ticks = 0\<rparr>))
     = [100, 201 / 2]
   \<and> (1 / 2 :: real) \<le> [100, 201 / 2] ! Suc 0 - [100, 201 / 2] ! 0
   \<and> int (length (in_window 101 [100, 201 / 2])) \<le> 2
   \<and> length [100, 201 / 2 :: real] = Suc (Suc 0)"
proof -
  let ?run = "wait_calls (\<lambda>n. 0) (Suc (Suc 0))
      (RateLimiter_init 2 (1 / 2), \<lparr>clock = 100, ticks = 0\<rparr>)"
  have l: "\<forall>n. (0::real) \<le> (\<lambda>n. 0) n" by simp
  have r: "?run = ([100, 201 / 2], snd ?run)"
    using two_calls by (metis prod.collapse)
  from C4_rate_limiter_invariant [OF l r]
  have "(\<forall>i. Suc i < length [100, 201 / 2 :: real] \<longrightarrow>
            (1 / 2 :: real) \<le> [100, 201 / 2] ! Suc i - [100, 201 / 2] ! i)
     \<and> ((0::int) \<le> 2 \<longrightarrow> (\<forall>T. int (length (in_window T [100, 201 / 2])) \<le> 2))
     \<and> ((1::int) \<le> 2 \<longrightarrow> length [100, 201 / 2 :: real] = Suc (Suc 0))" .
  then have "(1 / 2 :: real) \<le> [100, 201 / 2] ! Suc 0 - [100, 201 / 2] ! 0"
    and "int (length (in_window 101 [100, 201 / 2])) \<le> 2"
    and "length [100, 201 / 2 :: real] = Suc (Suc 0)"
    by simp_all
  with two_calls show ?thesis by simp
qed

end
